theory Spec2Isabelle
  imports Main "HOL-Library.Word"
begin

unbundle bit_operations_syntax

section \<open>Key formats\<close>

text \<open>
  Modelled from the spec: the key format bits of \<^verbatim>\<open>enum lnet_nl_key_format\<close>,
  declared in \<^verbatim>\<open>linux/lnet/lnet-nl.h\<close>, with the values of the wire table
  (FLOW=1, SEQUENCE=2, MAPPING=4). \<^verbatim>\<open>LNKF_END\<close> is defined in the file itself.
\<close>

definition LNKF_FLOW :: int where "LNKF_FLOW = 1"
definition LNKF_SEQUENCE :: int where "LNKF_SEQUENCE = 2"
definition LNKF_MAPPING :: int where "LNKF_MAPPING = 4"
definition LNKF_END :: int where "LNKF_END = 8"

section \<open>Netlink attributes\<close>

text \<open>
  The attribute type codes of the parse policies, as the file defines them
  (\<^verbatim>\<open>NLA_NUL_STRING\<close> 10, \<^verbatim>\<open>NLA_S16\<close> 13, \<^verbatim>\<open>NLA_S32\<close> 14,
  \<^verbatim>\<open>NLA_S64\<close> 15) and as libnl's \<^verbatim>\<open>netlink/attr.h\<close> numbers the others.
\<close>

definition NLA_U16 :: "16 word" where "NLA_U16 = 2"
definition NLA_U32 :: "16 word" where "NLA_U32 = 3"
definition NLA_U64 :: "16 word" where "NLA_U64 = 4"
definition NLA_STRING :: "16 word" where "NLA_STRING = 5"
definition NLA_NESTED :: "16 word" where "NLA_NESTED = 8"
definition NLA_NUL_STRING :: "16 word" where "NLA_NUL_STRING = 10"
definition NLA_S16 :: "16 word" where "NLA_S16 = 13"
definition NLA_S32 :: "16 word" where "NLA_S32 = 14"
definition NLA_S64 :: "16 word" where "NLA_S64 = 15"

text \<open>
  An attribute is its payload: two, four or eight bytes read as one integer, a string, or
  a nested container. A nested container is a sequence of attributes, each with its type
  index; the payload of a nested value attribute is a sequence of such containers, one
  for each element.
\<close>

datatype nlattr =
    Nla16 "16 word"
  | Nla32 "32 word"
  | Nla64 "64 word"
  | NlaStr string
  | NlaNested "(nat \<times> nlattr) list"

type_synonym nlattrs = "(nat \<times> nlattr) list"

text \<open>
  \<^verbatim>\<open>nla_parse\<close> fills a table indexed by attribute type: an attribute whose type is
  above \<^verbatim>\<open>maxtype\<close> is ignored, one that fails its policy makes the parse fail, and a
  later attribute of a type replaces an earlier one. The policy check is on the shape of
  the payload: the width of an integer, a string, a nested container; type 0 (no policy)
  accepts any payload.
\<close>

definition nla_validate :: "16 word \<Rightarrow> nlattr \<Rightarrow> bool" where
  "nla_validate pt a =
     (if pt = 0 then True
      else if pt = NLA_U16 \<or> pt = NLA_S16 then (case a of Nla16 _ \<Rightarrow> True | _ \<Rightarrow> False)
      else if pt = NLA_U32 \<or> pt = NLA_S32 then (case a of Nla32 _ \<Rightarrow> True | _ \<Rightarrow> False)
      else if pt = NLA_U64 \<or> pt = NLA_S64 then (case a of Nla64 _ \<Rightarrow> True | _ \<Rightarrow> False)
      else if pt = NLA_STRING \<or> pt = NLA_NUL_STRING then (case a of NlaStr _ \<Rightarrow> True | _ \<Rightarrow> False)
      else if pt = NLA_NESTED then (case a of NlaNested _ \<Rightarrow> True | _ \<Rightarrow> False)
      else False)"

fun nla_parse :: "nat \<Rightarrow> (nat \<Rightarrow> 16 word) \<Rightarrow> nlattrs \<Rightarrow> nlattrs \<Rightarrow> nlattrs option" where
  "nla_parse maxtype policy tb [] = Some tb"
| "nla_parse maxtype policy tb ((t, a) # rest) =
     (if t > maxtype then nla_parse maxtype policy tb rest
      else if \<not> nla_validate (policy t) a then None
      else nla_parse maxtype policy ((t, a) # filter (\<lambda>(t', _). t' \<noteq> t) tb) rest)"

text \<open>The entry \<^verbatim>\<open>tb[i]\<close> of a parsed table; \<open>None\<close> is the NULL pointer.\<close>

fun tb_get :: "nlattrs \<Rightarrow> nat \<Rightarrow> nlattr option" where
  "tb_get [] i = None"
| "tb_get ((t, a) # rest) i = (if t = i then Some a else tb_get rest i)"

section \<open>The schema tree\<close>

text \<open>
  \<^verbatim>\<open>struct ln_key_props\<close> (declared in \<^verbatim>\<open>linux/lnet/lnet-nl.h\<close>): the key's name,
  a NULL pointer being \<open>None\<close>, its format bits and the type of its values.
\<close>

record ln_key_props =
  lkp_values :: "string option"
  lkp_key_format :: "16 word"
  lkp_data_type :: "16 word"

text \<open>
  \<^verbatim>\<open>struct yaml_nl_node\<close>: the key list (\<^verbatim>\<open>lkl_maxattr\<close> and the table
  \<^verbatim>\<open>lkl_list\<close>) and the list of children, in the order of the linked list. A node
  is named by the path of child positions that leads to it from the root.
\<close>

datatype yaml_nl_node =
  Node (lkl_maxattr: nat) (lkl_list: "ln_key_props list") (children: "yaml_nl_node list")

type_synonym node_ptr = "nat list"

fun node_at :: "yaml_nl_node \<Rightarrow> node_ptr \<Rightarrow> yaml_nl_node option" where
  "node_at t [] = Some t"
| "node_at t (k # p) = (if k < length (children t) then node_at (children t ! k) p else None)"

fun node_update :: "(yaml_nl_node \<Rightarrow> yaml_nl_node) \<Rightarrow> node_ptr \<Rightarrow> yaml_nl_node \<Rightarrow> yaml_nl_node" where
  "node_update f [] t = f t"
| "node_update f (k # p) t =
     (if k < length (children t)
      then Node (lkl_maxattr t) (lkl_list t) ((children t)[k := node_update f p (children t ! k)])
      else t)"

text \<open>
  \<^verbatim>\<open>get_next_child\<close> walks the list of children with a counter and returns the child
  at position \<^verbatim>\<open>idx\<close>, or NULL (\<open>None\<close>) when the list ends first.
\<close>

fun get_next_child_from :: "yaml_nl_node list \<Rightarrow> nat \<Rightarrow> nat \<Rightarrow> yaml_nl_node option" where
  "get_next_child_from [] idx i = None"
| "get_next_child_from (child # rest) idx i =
     (if idx = i then Some child else get_next_child_from rest idx (Suc i))"

definition get_next_child :: "yaml_nl_node \<Rightarrow> nat \<Rightarrow> yaml_nl_node option" where
  "get_next_child node idx = get_next_child_from (children node) idx 0"

section \<open>The session\<close>

datatype yaml_error_type_e =
    YAML_NO_ERROR | YAML_MEMORY_ERROR | YAML_READER_ERROR | YAML_SCANNER_ERROR
  | YAML_PARSER_ERROR | YAML_COMPOSER_ERROR | YAML_WRITER_ERROR | YAML_EMITTER_ERROR

text \<open>
  Of \<^verbatim>\<open>yaml_parser_t\<close> the file touches the error state and the raw buffer. The raw
  buffer is the memory the reader writes into, from its start to \<^verbatim>\<open>raw_buffer.end\<close>;
  a pointer into it is an offset from its start.
\<close>

record yaml_parser_t =
  error :: yaml_error_type_e
  raw_buffer :: "char list"

text \<open>What \<^verbatim>\<open>free\<close> was called on: a key's string or a schema node (its key table).\<close>

datatype freed_obj = FreedString string | FreedNode "ln_key_props list"

text \<open>
  \<^verbatim>\<open>struct yaml_netlink_input\<close>. \<^verbatim>\<open>cur\<close> and \<^verbatim>\<open>root\<close> are NULL together until the
  first node is allocated; after that \<^verbatim>\<open>cur\<close> is the path from the root to the node it
  points to. Two fields are not in the struct: \<open>freed\<close> lists the calls of
  \<^verbatim>\<open>free\<close> in order, and \<open>unlinked\<close> holds the nodes that were allocated and linked
  into no list.
\<close>

record yaml_netlink_input =
  parser :: yaml_parser_t
  buffer :: int
  errmsg :: "string option"
  complete :: bool
  indent :: int
  cur :: node_ptr
  root :: "yaml_nl_node option"
  freed :: "freed_obj list"
  unlinked :: "yaml_nl_node list"

text \<open>
  What the C program does where the model cannot go on: a NULL pointer is dereferenced,
  memory outside the raw buffer or outside a key table is accessed, or an attribute is read
  as a type its payload does not have.
\<close>

datatype fault = NullDeref | BufferOverrun | KeyIndexOverrun | BadPayload

section \<open>Memory and libc\<close>

text \<open>A value of type \<^verbatim>\<open>unsigned int\<close> after arithmetic on it.\<close>

definition to_uint :: "int \<Rightarrow> int" where
  "to_uint x = x mod 2 ^ 32"

definition to_size_t :: "int \<Rightarrow> int" where
  "to_size_t x = x mod 2 ^ 64"

definition to_int32 :: "int \<Rightarrow> int" where
  "to_int32 x = (x + 2 ^ 31) mod 2 ^ 32 - 2 ^ 31"

text \<open>Writing bytes at an offset of the raw buffer.\<close>

definition poke :: "char list \<Rightarrow> int \<Rightarrow> char list \<Rightarrow> fault + char list" where
  "poke mem off bs =
     (if 0 \<le> off \<and> off + int (length bs) \<le> int (length mem)
      then Inr (take (nat off) mem @ bs @ drop (nat off + length bs) mem)
      else Inl BufferOverrun)"

text \<open>
  \<^verbatim>\<open>snprintf(buf, n, ...)\<close> with the formatted text \<open>s\<close>: at most \<open>n - 1\<close> characters
  and the terminating NUL are stored, nothing when \<open>n\<close> is 0, and the length of the whole
  text is returned. \<open>n\<close> is the caller's \<^verbatim>\<open>int\<close> converted to \<^verbatim>\<open>size_t\<close>, so a
  negative one is a huge bound (as glibc takes it).
\<close>

definition snprintf :: "char list \<Rightarrow> int \<Rightarrow> int \<Rightarrow> string \<Rightarrow> fault + (char list \<times> int)" where
  "snprintf mem off n s =
     (if to_size_t n = 0 then Inr (mem, int (length s))
      else case poke mem off (take (nat (to_size_t n) - 1) s @ [CHR 0x00]) of
             Inl e \<Rightarrow> Inl e
           | Inr mem' \<Rightarrow> Inr (mem', int (length s)))"

text \<open>\<^verbatim>\<open>strcat(buf, s)\<close>: \<open>s\<close> and its NUL go where the first NUL from \<open>buf\<close> on is.\<close>

definition strcat :: "char list \<Rightarrow> int \<Rightarrow> string \<Rightarrow> fault + char list" where
  "strcat mem off s =
     (if off < 0 \<or> int (length mem) \<le> off then Inl BufferOverrun
      else let k = length (takeWhile (\<lambda>c. c \<noteq> CHR 0x00) (drop (nat off) mem)) in
        if length mem \<le> nat off + k then Inl BufferOverrun
        else poke mem (off + int k) (s @ [CHR 0x00]))"

text \<open>Canonical decimal text of an unsigned and of a signed integer.\<close>

function dec_nat :: "nat \<Rightarrow> string" where
  "dec_nat n = (if n < 10 then [''0123456789'' ! n]
                else dec_nat (n div 10) @ [''0123456789'' ! (n mod 10)])"
  by pat_completeness auto
termination
  by (relation "measure id") auto

definition dec_int :: "int \<Rightarrow> string" where
  "dec_int i = (if i < 0 then CHR ''-'' # dec_nat (nat (- i)) else dec_nat (nat i))"

text \<open>A \<^verbatim>\<open>char *\<close> passed to \<^verbatim>\<open>strlen\<close> or to a \<^verbatim>\<open>%s\<close> conversion.\<close>

definition c_str :: "string option \<Rightarrow> fault + string" where
  "c_str p = (case p of None \<Rightarrow> Inl NullDeref | Some s \<Rightarrow> Inr s)"

section \<open>Inbound path: value batches\<close>

text \<open>The typed reads of an attribute's payload.\<close>

definition nla_get_u16 :: "nlattr \<Rightarrow> fault + 16 word" where
  "nla_get_u16 a = (case a of Nla16 w \<Rightarrow> Inr w | _ \<Rightarrow> Inl BadPayload)"

definition nla_get_u32 :: "nlattr \<Rightarrow> fault + 32 word" where
  "nla_get_u32 a = (case a of Nla32 w \<Rightarrow> Inr w | _ \<Rightarrow> Inl BadPayload)"

definition nla_get_u64 :: "nlattr \<Rightarrow> fault + 64 word" where
  "nla_get_u64 a = (case a of Nla64 w \<Rightarrow> Inr w | _ \<Rightarrow> Inl BadPayload)"

definition nla_get_string :: "nlattr \<Rightarrow> fault + string" where
  "nla_get_string a = (case a of NlaStr s \<Rightarrow> Inr s | _ \<Rightarrow> Inl BadPayload)"

text \<open>
  The locals of one call of \<^verbatim>\<open>yaml_parse_value_list\<close> together with what it shares
  with its caller: the session and the remaining capacity \<^verbatim>\<open>*size\<close>.
\<close>

record value_locals =
  vl_data :: yaml_netlink_input
  vl_size :: int
  vl_mapping :: int
  vl_child_idx :: nat
  vl_len :: int

text \<open>Where a step of the loop body leaves: on to the next statement, or by a jump.\<close>

datatype 'a jump = Next 'a | Continue 'a | Unwind 'a

definition get_mem :: "value_locals \<Rightarrow> char list" where
  "get_mem st = raw_buffer (parser (vl_data st))"

definition set_mem :: "char list \<Rightarrow> value_locals \<Rightarrow> value_locals" where
  "set_mem m st = st\<lparr>vl_data := (vl_data st)\<lparr>parser := (parser (vl_data st))\<lparr>raw_buffer := m\<rparr>\<rparr>\<rparr>"

text \<open>\<^verbatim>\<open>data->buffer += k; *size -= k;\<close>\<close>

definition advance :: "int \<Rightarrow> value_locals \<Rightarrow> value_locals" where
  "advance k st = st\<lparr>vl_data := (vl_data st)\<lparr>buffer := buffer (vl_data st) + k\<rparr>,
                      vl_size := vl_size st - k\<rparr>"

text \<open>\<^verbatim>\<open>len = snprintf(data->buffer, *size, ...)\<close> with the formatted text.\<close>

definition print_at :: "string \<Rightarrow> value_locals \<Rightarrow> fault + value_locals" where
  "print_at s st =
     (case snprintf (get_mem st) (buffer (vl_data st)) (vl_size st) s of
        Inl e \<Rightarrow> Inl e
      | Inr (m, n) \<Rightarrow> Inr ((set_mem m st)\<lparr>vl_len := n\<rparr>))"

text \<open>The node at a path and the slot \<^verbatim>\<open>keys[i]\<close> of its key table.\<close>

definition the_node :: "yaml_netlink_input \<Rightarrow> node_ptr \<Rightarrow> fault + yaml_nl_node" where
  "the_node d np =
     (case root d of None \<Rightarrow> Inl NullDeref
      | Some r \<Rightarrow> (case node_at r np of None \<Rightarrow> Inl NullDeref | Some node \<Rightarrow> Inr node))"

definition key_at :: "yaml_netlink_input \<Rightarrow> node_ptr \<Rightarrow> nat \<Rightarrow> fault + ln_key_props" where
  "key_at d np i =
     (case the_node d np of Inl e \<Rightarrow> Inl e
      | Inr node \<Rightarrow> if i < length (lkl_list node) then Inr (lkl_list node ! i)
                    else Inl KeyIndexOverrun)"

text \<open>The label \<^verbatim>\<open>unwind\<close>: the write pointer and the capacity go back by the indentation plus two.\<close>

definition unwind :: "value_locals \<Rightarrow> value_locals" where
  "unwind st =
     st\<lparr>vl_data := (vl_data st)\<lparr>buffer := buffer (vl_data st) - to_uint (indent (vl_data st) + 2)\<rparr>,
        vl_size := vl_size st - to_uint (indent (vl_data st) + 2)\<rparr>"

text \<open>
  Lines 520 to 547: for a key that is neither a label nor nested, the indentation (with
  the dash of a sequence) and the \<^verbatim>\<open>name: \<close> of a mapping.
\<close>

definition slot_prefix :: "ln_key_props \<Rightarrow> nlattr option \<Rightarrow> value_locals \<Rightarrow> fault + value_locals jump" where
  "slot_prefix key attr st =
     (if lkp_data_type key \<noteq> NLA_NUL_STRING \<and> lkp_data_type key \<noteq> NLA_NESTED then
        (if attr = None then Inr (Continue st)
         else
           (case
              (if vl_mapping st AND LNKF_FLOW = 0 then
                 (let ind = (if indent (vl_data st) \<noteq> 0 then indent (vl_data st) else 2) in
                  case poke (get_mem st) (buffer (vl_data st)) (replicate (nat ind) CHR '' '') of
                    Inl e \<Rightarrow> Inl e
                  | Inr m1 \<Rightarrow>
                     (case
                        (if vl_mapping st AND LNKF_SEQUENCE \<noteq> 0 then
                           (case poke m1 (buffer (vl_data st) + to_uint (ind - 2)) ''-'' of
                              Inl e \<Rightarrow> Inl e
                            | Inr m2 \<Rightarrow>
                                Inr (m2, if vl_mapping st AND LNKF_MAPPING \<noteq> 0
                                         then vl_mapping st AND NOT LNKF_SEQUENCE
                                         else vl_mapping st))
                         else Inr (m1, vl_mapping st)) of
                        Inl e \<Rightarrow> Inl e
                      | Inr (m, mapping) \<Rightarrow>
                          Inr (advance ind ((set_mem m st)\<lparr>vl_mapping := mapping\<rparr>))))
               else Inr st) of
              Inl e \<Rightarrow> Inl e
            | Inr st1 \<Rightarrow>
               (if vl_mapping st1 AND LNKF_MAPPING \<noteq> 0 then
                  (case c_str (lkp_values key) of
                     Inl e \<Rightarrow> Inl e
                   | Inr name \<Rightarrow>
                      (case print_at (name @ '': '') st1 of
                         Inl e \<Rightarrow> Inl e
                       | Inr st2 \<Rightarrow>
                           if vl_len st2 < 0 then Inr (Unwind st2)
                           else Inr (Next (advance (vl_len st2) st2))))
                else Inr (Next st1))))
      else Inr (Next st))"

text \<open>
  The label \<^verbatim>\<open>not_first\<close>: a value attribute of a label replaces the name stored in the
  parent key, the old string being freed. The parent key is \<^verbatim>\<open>keys[k]\<close> of the node at
  path \<open>pp\<close>.
\<close>

definition set_lkp_values :: "nat \<Rightarrow> string option \<Rightarrow> yaml_nl_node \<Rightarrow> yaml_nl_node" where
  "set_lkp_values k v node =
     Node (lkl_maxattr node) ((lkl_list node)[k := (lkl_list node ! k)\<lparr>lkp_values := v\<rparr>])
       (children node)"

definition not_first :: "node_ptr \<times> nat \<Rightarrow> nlattr option \<Rightarrow> value_locals \<Rightarrow> fault + value_locals" where
  "not_first parent attr st =
     (case key_at (vl_data st) (fst parent) (snd parent) of
        Inl e \<Rightarrow> Inl e
      | Inr pkey \<Rightarrow>
         (case (attr, lkp_values pkey) of
            (Some a, Some old) \<Rightarrow>
              (case nla_get_string a of
                 Inl e \<Rightarrow> Inl e
               | Inr s \<Rightarrow>
                   Inr (st\<lparr>vl_data := (vl_data st)
                          \<lparr>root := map_option (node_update (set_lkp_values (snd parent) (Some s))
                                                (fst parent)) (root (vl_data st)),
                           freed := freed (vl_data st) @ [FreedString old]\<rparr>\<rparr>))
          | _ \<Rightarrow> Inr st))"

text \<open>The case \<^verbatim>\<open>NLA_NUL_STRING\<close> of the switch.\<close>

definition label_slot ::
  "node_ptr \<times> nat \<Rightarrow> nat \<Rightarrow> ln_key_props \<Rightarrow> nlattr option \<Rightarrow> value_locals \<Rightarrow> fault + value_locals jump" where
  "label_slot parent i key attr st =
     (if i = 1 then
        (if cur (vl_data st) \<noteq> [] then map_sum id Next (not_first parent attr st)
         else
           (case c_str (lkp_values key) of
              Inl e \<Rightarrow> Inl e
            | Inr name \<Rightarrow>
               (case (if length name \<noteq> 0 then
                        (case print_at (name @ '':'' @ [CHR 0x0A]) st of
                           Inl e \<Rightarrow> Inl e
                         | Inr st1 \<Rightarrow>
                             if vl_len st1 < 0 then Inr (Unwind st1)
                             else Inr (Next ((advance (vl_len st1) st1)\<lparr>vl_len := 0\<rparr>)))
                      else Inr (Next st)) of
                  Inl e \<Rightarrow> Inl e
                | Inr (Unwind st1) \<Rightarrow> Inr (Unwind st1)
                | Inr (Continue st1) \<Rightarrow> Inr (Continue st1)
                | Inr (Next st1) \<Rightarrow>
                    (let ind = (if vl_mapping st1 AND LNKF_FLOW = 0 then
                                  (if vl_mapping st1 AND LNKF_SEQUENCE \<noteq> 0 then 2
                                   else if vl_mapping st1 AND LNKF_MAPPING \<noteq> 0 then 2 else 0)
                                else 0)
                     in map_sum id Next
                          (not_first parent attr (st1\<lparr>vl_data := (vl_data st1)\<lparr>indent := ind\<rparr>\<rparr>))))))
      else Inr (Next st))"

text \<open>
  The scalar cases of the switch: the value is formatted at the write pointer and its
  length left in \<^verbatim>\<open>len\<close>. \<^verbatim>\<open>%hd\<close> is given the result of \<^verbatim>\<open>nla_get_u16\<close>. A type
  with no case leaves everything as it is.
\<close>

definition scalar_text :: "16 word \<Rightarrow> nlattr \<Rightarrow> fault + string option" where
  "scalar_text ty a =
     (if ty = NLA_STRING then map_sum id Some (nla_get_string a)
      else if ty = NLA_U16 then map_sum id (\<lambda>w. Some (dec_nat (unat w))) (nla_get_u16 a)
      else if ty = NLA_U32 then map_sum id (\<lambda>w. Some (dec_nat (unat w))) (nla_get_u32 a)
      else if ty = NLA_U64 then map_sum id (\<lambda>w. Some (dec_nat (unat w))) (nla_get_u64 a)
      else if ty = NLA_S16 then map_sum id (\<lambda>w. Some (dec_int (sint w))) (nla_get_u16 a)
      else if ty = NLA_S32 then map_sum id (\<lambda>w. Some (dec_int (sint w))) (nla_get_u32 a)
      else if ty = NLA_S64 then map_sum id (\<lambda>w. Some (dec_int (sint w))) (nla_get_u64 a)
      else Inr None)"

definition slot_switch ::
  "node_ptr \<times> nat \<Rightarrow> nat \<Rightarrow> ln_key_props \<Rightarrow> nlattr option \<Rightarrow> value_locals \<Rightarrow> fault + value_locals jump" where
  "slot_switch parent i key attr st =
     (if lkp_data_type key = NLA_NUL_STRING then label_slot parent i key attr st
      else
        (case attr of
           None \<Rightarrow> Inl NullDeref
         | Some a \<Rightarrow>
            (case scalar_text (lkp_data_type key) a of
               Inl e \<Rightarrow> Inl e
             | Inr None \<Rightarrow> Inr (Next st)
             | Inr (Some s) \<Rightarrow> map_sum id Next (print_at s st))))"

text \<open>
  Lines 700 to 713: the separator after a fragment of length \<^verbatim>\<open>len\<close>, a comma and a
  space in a flow container and a newline otherwise. The capacity is increased here.
\<close>

definition slot_tail :: "value_locals \<Rightarrow> fault + value_locals" where
  "slot_tail st =
     (if vl_len st \<noteq> 0 then
        (case (if vl_mapping st AND LNKF_FLOW \<noteq> 0
               then map_sum id (\<lambda>m. (m, vl_len st + 2))
                      (strcat (get_mem st) (buffer (vl_data st)) '', '')
               else map_sum id (\<lambda>m. (m, vl_len st + 1))
                      (poke (get_mem st) (buffer (vl_data st) + vl_len st) [CHR 0x0A])) of
           Inl e \<Rightarrow> Inl e
         | Inr (m, n) \<Rightarrow>
             Inr ((set_mem m st)\<lparr>vl_data := (vl_data (set_mem m st))
                                    \<lparr>buffer := buffer (vl_data st) + n\<rparr>,
                                  vl_size := vl_size st + n, vl_len := n\<rparr>))
      else if vl_len st < 0 then Inr (unwind st)
      else Inr st)"

text \<open>
  Lines 576 to 607: the opening of a nested key for one element, a flow container on one
  line or a block header, and the indentation the element's lines get on top.
\<close>

definition nested_open :: "ln_key_props \<Rightarrow> value_locals \<Rightarrow> fault + (value_locals \<times> int)" where
  "nested_open key st =
     (case c_str (lkp_values key) of
        Inl e \<Rightarrow> Inl e
      | Inr name \<Rightarrow>
         (let fmt = uint (lkp_key_format key);
              pad = replicate (nat (indent (vl_data st))) CHR '' '' in
          if fmt AND LNKF_FLOW \<noteq> 0 then
            map_sum id (\<lambda>st1. (st1, 0))
              (print_at (pad @ name @ '': '' @
                         [if fmt AND LNKF_SEQUENCE \<noteq> 0 then CHR ''['' else CHR ''{''] @ '' '') st)
          else
            map_sum id (\<lambda>st1. (st1, (if fmt AND LNKF_MAPPING \<noteq> 0 then 2 else 0)
                                     + (if fmt AND LNKF_SEQUENCE \<noteq> 0 then 2 else 0)))
              (print_at (pad @ name @ '':'' @ [CHR 0x0A]) st)))"

text \<open>
  Lines 612 to 623: a flow container is closed over the two bytes before the write
  pointer, which then moves by one.
\<close>

definition nested_close :: "ln_key_props \<Rightarrow> value_locals \<Rightarrow> fault + value_locals" where
  "nested_close key st =
     (let fmt = uint (lkp_key_format key) in
      if fmt AND LNKF_FLOW \<noteq> 0 then
        (case poke (get_mem st) (buffer (vl_data st) - 2)
                ((if fmt AND LNKF_SEQUENCE \<noteq> 0 then '' ]'' else '' }'') @ [CHR 0x0A]) of
           Inl e \<Rightarrow> Inl e
         | Inr m \<Rightarrow> Inr (advance 1 (set_mem m st)))
      else Inr st)"

definition set_indent :: "int \<Rightarrow> value_locals \<Rightarrow> value_locals" where
  "set_indent k st = st\<lparr>vl_data := (vl_data st)\<lparr>indent := k\<rparr>\<rparr>"

definition set_cur :: "node_ptr \<Rightarrow> value_locals \<Rightarrow> value_locals" where
  "set_cur p st = st\<lparr>vl_data := (vl_data st)\<lparr>cur := p\<rparr>\<rparr>"

text \<open>
  The policy array of \<open>num\<close> entries built from a node's key types; entry 0 is 0, and
  so is what the model reads past the array.
\<close>

definition node_policy :: "nat \<Rightarrow> yaml_nl_node \<Rightarrow> nat \<Rightarrow> 16 word" where
  "node_policy num node j =
     (if 1 \<le> j \<and> j < num \<and> j < length (lkl_list node)
      then lkp_data_type (lkl_list node ! j) else 0)"

text \<open>\<^verbatim>\<open>nla_parse_nested\<close> of one element of a nested value attribute.\<close>

definition nla_parse_nested :: "nat \<Rightarrow> (nat \<Rightarrow> 16 word) \<Rightarrow> nlattr \<Rightarrow> nlattrs option" where
  "nla_parse_nested maxtype policy a =
     (case a of NlaNested raw \<Rightarrow> nla_parse maxtype policy [] raw | _ \<Rightarrow> None)"

abbreviation attrs_size :: "nlattrs \<Rightarrow> nat" where
  "attrs_size \<equiv> size_list (size_prod (\<lambda>_. 0) size)"

lemma attrs_size_filter: "attrs_size (filter P tb) \<le> attrs_size tb"
  by (induction tb) auto

lemma attrs_size_nla_parse:
  "nla_parse maxtype policy tb raw = Some tb' \<Longrightarrow> attrs_size tb' \<le> attrs_size tb + attrs_size raw"
proof (induction raw arbitrary: tb)
  case Nil
  then show ?case by simp
next
  case (Cons x raw)
  obtain t a where x: "x = (t, a)" by (cases x)
  show ?case
  proof (cases "t > maxtype")
    case True
    with Cons x show ?thesis by fastforce
  next
    case False
    with Cons.prems x have ok: "nla_validate (policy t) a"
      and rec: "nla_parse maxtype policy ((t, a) # filter (\<lambda>(t', _). t' \<noteq> t) tb) raw = Some tb'"
      by (auto split: if_splits)
    have "attrs_size tb' \<le> attrs_size ((t, a) # filter (\<lambda>(t', _). t' \<noteq> t) tb) + attrs_size raw"
      by (rule Cons.IH [OF rec])
    also have "\<dots> \<le> attrs_size tb + attrs_size (x # raw)"
      using attrs_size_filter [of "\<lambda>(t', _). t' \<noteq> t" tb] x by simp
    finally show ?thesis .
  qed
qed

lemma attrs_size_tb_get: "tb_get tb i = Some a \<Longrightarrow> size a < attrs_size tb"
  by (induction tb) (auto split: if_splits)

text \<open>
  \<^verbatim>\<open>yaml_parse_value_list\<close>. \<open>value_loop\<close> is its \<^verbatim>\<open>for\<close> loop over the slots of the
  node \<^verbatim>\<open>data->cur\<close> pointed to on entry (path \<open>np\<close>), \<open>value_slot\<close> one run of the
  loop body and \<open>nested_elems\<close> the loop over the elements of a nested attribute. The
  bound \<open>n\<close> is the node's \<^verbatim>\<open>lkl_maxattr\<close>, which is written only when the node is
  allocated. \<open>nested_elems\<close> returns whether it left by \<^verbatim>\<open>goto unwind\<close>.
\<close>

function yaml_parse_value_list ::
    "yaml_netlink_input \<Rightarrow> int \<Rightarrow> nlattrs \<Rightarrow> node_ptr \<times> nat \<Rightarrow> fault + (yaml_netlink_input \<times> int)"
  and value_loop ::
    "node_ptr \<Rightarrow> node_ptr \<times> nat \<Rightarrow> nlattrs \<Rightarrow> nat \<Rightarrow> nat \<Rightarrow> value_locals \<Rightarrow> fault + value_locals"
  and value_slot ::
    "node_ptr \<Rightarrow> node_ptr \<times> nat \<Rightarrow> nlattrs \<Rightarrow> nat \<Rightarrow> value_locals \<Rightarrow> fault + value_locals"
  and nested_elems ::
    "node_ptr \<Rightarrow> nat \<Rightarrow> nat \<Rightarrow> (nat \<Rightarrow> 16 word) \<Rightarrow> nlattrs \<Rightarrow> value_locals \<Rightarrow> fault + (bool \<times> value_locals)"
where
  "yaml_parse_value_list d sz tb parent =
     (case the_node d (cur d) of
        Inl e \<Rightarrow> Inl e
      | Inr node \<Rightarrow>
         (case key_at d (fst parent) (snd parent) of
            Inl e \<Rightarrow> Inl e
          | Inr pkey \<Rightarrow>
             (case value_loop (cur d) parent tb (lkl_maxattr node) 1
                     \<lparr>vl_data = d, vl_size = sz, vl_mapping = uint (lkp_key_format pkey),
                      vl_child_idx = 0, vl_len = 0\<rparr> of
                Inl e \<Rightarrow> Inl e
              | Inr st \<Rightarrow> Inr (vl_data st, vl_size st))))"
| "value_loop np parent tb n i st =
     (if i < n then
        (case value_slot np parent tb i st of
           Inl e \<Rightarrow> Inl e
         | Inr st' \<Rightarrow> value_loop np parent tb n (Suc i) st')
      else Inr st)"
| "value_slot np parent tb i st =
     (case key_at (vl_data st) np i of
        Inl e \<Rightarrow> Inl e
      | Inr key \<Rightarrow>
         (if tb_get tb i = None \<and> lkp_values key = None then Inr st
          else
            (case slot_prefix key (tb_get tb i) st of
               Inl e \<Rightarrow> Inl e
             | Inr (Continue st1) \<Rightarrow> Inr st1
             | Inr (Unwind st1) \<Rightarrow> Inr (unwind st1)
             | Inr (Next st1) \<Rightarrow>
                (if lkp_data_type key = NLA_NESTED then
                   (case the_node (vl_data st1) np of
                      Inl e \<Rightarrow> Inl e
                    | Inr node \<Rightarrow>
                       (case get_next_child node (vl_child_idx st1) of
                          None \<Rightarrow> Inl NullDeref
                        | Some next \<Rightarrow>
                           (case tb_get tb i of
                              None \<Rightarrow> Inr (st1\<lparr>vl_child_idx := Suc (vl_child_idx st1)\<rparr>)
                            | Some (NlaNested elems) \<Rightarrow>
                               (case nested_elems np i (lkl_maxattr next) (node_policy (lkl_maxattr next) next) elems
                                       (set_cur (np @ [vl_child_idx st1])
                                          (st1\<lparr>vl_child_idx := Suc (vl_child_idx st1)\<rparr>)) of
                                  Inl e \<Rightarrow> Inl e
                                | Inr (True, st2) \<Rightarrow> Inr (unwind st2)
                                | Inr (False, st2) \<Rightarrow>
                                    slot_tail (set_cur (cur (vl_data st1)) st2))
                            | Some _ \<Rightarrow> Inl BadPayload)))
                 else
                   (case slot_switch parent i key (tb_get tb i) st1 of
                      Inl e \<Rightarrow> Inl e
                    | Inr (Continue st2) \<Rightarrow> Inr st2
                    | Inr (Unwind st2) \<Rightarrow> Inr (unwind st2)
                    | Inr (Next st2) \<Rightarrow> slot_tail st2)))))"
| "nested_elems np i num policy [] st = Inr (False, st)"
| "nested_elems np i num policy (cnt_attr # rest) st =
     (case nla_parse_nested num policy (snd cnt_attr) of
        None \<Rightarrow> Inr (False, st)
      | Some nest_info \<Rightarrow>
         (case key_at (vl_data st) np i of
            Inl e \<Rightarrow> Inl e
          | Inr key \<Rightarrow>
             (case nested_open key st of
                Inl e \<Rightarrow> Inl e
              | Inr (st1, ind) \<Rightarrow>
                 (if vl_len st1 < 0 then Inr (True, st1)
                  else
                    (case yaml_parse_value_list
                            (vl_data (set_indent (to_uint (indent (vl_data st1) + ind))
                                        ((advance (vl_len st1) st1)\<lparr>vl_len := 0\<rparr>)))
                            (vl_size st1 - vl_len st1) nest_info (np, i) of
                       Inl e \<Rightarrow> Inl e
                     | Inr (d2, sz2) \<Rightarrow>
                        (case nested_close key
                                (st1\<lparr>vl_data := d2\<lparr>indent := to_uint (indent d2 - ind)\<rparr>,
                                     vl_size := sz2, vl_len := 0\<rparr>) of
                           Inl e \<Rightarrow> Inl e
                         | Inr st3 \<Rightarrow> nested_elems np i num policy rest st3))))))"
  by pat_completeness auto
termination
  apply (relation "inv_image (less_than <*lex*> less_than <*lex*> less_than)
      (\<lambda>x. case x of
          Inl (Inl (d, sz, tb, parent)) \<Rightarrow> (attrs_size tb, 2, 0)
        | Inl (Inr (np, parent, tb, n, i, st)) \<Rightarrow> (attrs_size tb, 1, n - i)
        | Inr (Inl (np, parent, tb, i, st)) \<Rightarrow> (attrs_size tb, 0, 0)
        | Inr (Inr (np, i, num, policy, elems, st)) \<Rightarrow> (attrs_size elems, 0::nat, 0::nat))")
        apply simp_all
  apply (auto dest: attrs_size_tb_get attrs_size_nla_parse simp: nla_parse_nested_def
      split: nlattr.splits)
  done

declare yaml_parse_value_list.simps [simp del] value_loop.simps [simp del]
  value_slot.simps [simp del] dec_nat.simps [simp del]

section \<open>Inbound path: messages\<close>

text \<open>
  The constants of \<^verbatim>\<open>linux/netlink.h\<close> and of libnl's \<^verbatim>\<open>netlink/handlers.h\<close>
  and \<^verbatim>\<open>netlink/errno.h\<close> that the callbacks use; \<^verbatim>\<open>NLM_F_ACK_TLVS\<close> is also
  defined in the file.
\<close>

definition NLM_F_MULTI :: "16 word" where "NLM_F_MULTI = 0x2"
definition NLM_F_ACK_TLVS :: "16 word" where "NLM_F_ACK_TLVS = 0x200"
definition NLM_F_CREATE :: "16 word" where "NLM_F_CREATE = 0x400"
definition NLMSG_ERROR :: "16 word" where "NLMSG_ERROR = 0x2"
definition NLMSG_DONE :: "16 word" where "NLMSG_DONE = 0x3"
definition NLMSGERR_ATTR_MSG :: nat where "NLMSGERR_ATTR_MSG = 1"
definition NLMSGERR_ATTR_OFFS :: nat where "NLMSGERR_ATTR_OFFS = 2"
definition NL_OK :: int where "NL_OK = 0"
definition NL_SKIP :: int where "NL_SKIP = 1"
definition NL_STOP :: int where "NL_STOP = 2"
definition NLE_INTR :: int where "NLE_INTR = 2"

text \<open>
  Modelled from the spec: the tags of a key record, \<^verbatim>\<open>enum lnet_nl_scalar_attrs\<close> of
  \<^verbatim>\<open>linux/lnet/lnet-nl.h\<close>, numbered in the order of the wire table, and their count
  \<^verbatim>\<open>LN_SCALAR_CNT\<close>.
\<close>

definition LN_SCALAR_ATTR_LIST :: nat where "LN_SCALAR_ATTR_LIST = 1"
definition LN_SCALAR_ATTR_LIST_SIZE :: nat where "LN_SCALAR_ATTR_LIST_SIZE = 2"
definition LN_SCALAR_ATTR_INDEX :: nat where "LN_SCALAR_ATTR_INDEX = 3"
definition LN_SCALAR_ATTR_NLA_TYPE :: nat where "LN_SCALAR_ATTR_NLA_TYPE = 4"
definition LN_SCALAR_ATTR_VALUE :: nat where "LN_SCALAR_ATTR_VALUE = 5"
definition LN_SCALAR_ATTR_KEY_FORMAT :: nat where "LN_SCALAR_ATTR_KEY_FORMAT = 6"
definition LN_SCALAR_CNT :: nat where "LN_SCALAR_CNT = 6"

definition scalar_attr_policy :: "nat \<Rightarrow> 16 word" where
  "scalar_attr_policy t =
     (if t = LN_SCALAR_ATTR_LIST then NLA_NESTED
      else if t = LN_SCALAR_ATTR_LIST_SIZE then NLA_U16
      else if t = LN_SCALAR_ATTR_INDEX then NLA_U16
      else if t = LN_SCALAR_ATTR_NLA_TYPE then NLA_U16
      else if t = LN_SCALAR_ATTR_VALUE then NLA_STRING
      else if t = LN_SCALAR_ATTR_KEY_FORMAT then NLA_U16
      else 0)"

text \<open>
  A netlink message as the callbacks read it: the header's type and flags, the attributes
  after the generic netlink header (\<^verbatim>\<open>genlmsg_parse\<close>), the payload read as
  \<^verbatim>\<open>struct nlmsgerr\<close> (its \<^verbatim>\<open>error\<close>), and the attributes \<^verbatim>\<open>nlmsg_parse\<close> walks
  from the start of the payload, \<open>None\<close> when that walk fails.
\<close>

record nl_msg =
  nlmsg_type :: "16 word"
  nlmsg_flags :: "16 word"
  genl_attrs :: nlattrs
  nlmsgerr_error :: int
  ack_attrs :: "nlattrs option"

text \<open>
  One key record of a schema message, lines 385 to 438: the first record with a list size
  allocates the node, cleared by \<^verbatim>\<open>calloc\<close>; then the record's format, type and name
  are stored in slot \<^verbatim>\<open>index\<close>. \<open>Return\<close> is \<^verbatim>\<open>return NL_STOP\<close>, with the
  node as it is then.
\<close>

datatype ('r, 'a) outcome = Return 'r | Proceed 'a

definition calloc_node :: "nat \<Rightarrow> yaml_nl_node" where
  "calloc_node cnt =
     Node cnt (replicate cnt \<lparr>lkp_values = None, lkp_key_format = 0, lkp_data_type = 0\<rparr>) []"

definition set_key :: "nat \<Rightarrow> (ln_key_props \<Rightarrow> ln_key_props) \<Rightarrow> yaml_nl_node \<Rightarrow> fault + yaml_nl_node" where
  "set_key index f node =
     (if index < length (lkl_list node)
      then Inr (Node (lkl_maxattr node) ((lkl_list node)[index := f (lkl_list node ! index)])
                 (children node))
      else Inl KeyIndexOverrun)"

definition opt_u16 :: "nlattr option \<Rightarrow> fault + 16 word option" where
  "opt_u16 a = (case a of None \<Rightarrow> Inr None | Some x \<Rightarrow> map_sum id Some (nla_get_u16 x))"

definition key_record ::
  "nlattrs \<Rightarrow> yaml_nl_node option \<Rightarrow> fault + (yaml_nl_node option, yaml_nl_node) outcome" where
  "key_record tbl_info node =
     (case opt_u16 (tb_get tbl_info LN_SCALAR_ATTR_LIST_SIZE) of
        Inl e \<Rightarrow> Inl e
      | Inr list_size \<Rightarrow>
     (case opt_u16 (tb_get tbl_info LN_SCALAR_ATTR_INDEX) of
        Inl e \<Rightarrow> Inl e
      | Inr idx \<Rightarrow>
     (case opt_u16 (tb_get tbl_info LN_SCALAR_ATTR_KEY_FORMAT) of
        Inl e \<Rightarrow> Inl e
      | Inr format \<Rightarrow>
     (case opt_u16 (tb_get tbl_info LN_SCALAR_ATTR_NLA_TYPE) of
        Inl e \<Rightarrow> Inl e
      | Inr type \<Rightarrow>
     (case (case tb_get tbl_info LN_SCALAR_ATTR_VALUE of
              None \<Rightarrow> Inr None
            | Some x \<Rightarrow> map_sum id Some (nla_get_string x)) of
        Inl e \<Rightarrow> Inl e
      | Inr name \<Rightarrow>
        (let node1 = (case (list_size, node) of
                        (Some w, None) \<Rightarrow> Some (calloc_node (unat w + 1))
                      | _ \<Rightarrow> node);
             index = (case idx of None \<Rightarrow> 0 | Some w \<Rightarrow> unat w)
         in case node1 of
              None \<Rightarrow> Inr (Return node1)
            | Some nd \<Rightarrow>
                if index = 0 then Inr (Return node1)
                else
                  (case (case format of None \<Rightarrow> Inr nd
                         | Some w \<Rightarrow> set_key index (\<lambda>k. k\<lparr>lkp_key_format := w\<rparr>) nd) of
                     Inl e \<Rightarrow> Inl e
                   | Inr nd1 \<Rightarrow>
                  (case (case type of None \<Rightarrow> Inr nd1
                         | Some w \<Rightarrow> set_key index (\<lambda>k. k\<lparr>lkp_data_type := w\<rparr>) nd1) of
                     Inl e \<Rightarrow> Inl e
                   | Inr nd2 \<Rightarrow>
                  (case (case name of None \<Rightarrow> Inr nd2
                         | Some s \<Rightarrow> set_key index (\<lambda>k. k\<lparr>lkp_values := Some s\<rparr>) nd2) of
                     Inl e \<Rightarrow> Inl e
                   | Inr nd3 \<Rightarrow> Inr (Proceed nd3))))))))))"

definition add_tail :: "yaml_nl_node option \<Rightarrow> yaml_nl_node \<Rightarrow> yaml_nl_node" where
  "add_tail child node =
     (case child of None \<Rightarrow> node
      | Some c \<Rightarrow> Node (lkl_maxattr node) (lkl_list node) (children node @ [c]))"

text \<open>
  \<^verbatim>\<open>yaml_parse_key_list\<close> over the records of a list. The result is the return code and
  the node the call allocated, with all that was stored in it and linked below it, also
  when the call stops early. The C function links that node into
  \<^verbatim>\<open>parent->children\<close> as soon as it is allocated; here the caller appends what the
  call returns (\<open>add_tail\<close>), and for the call with no parent the message callback
  below makes it the root or leaves it unlinked. \<open>key_list_loop\<close> is the loop with its
  local \<^verbatim>\<open>node\<close>.
\<close>

function yaml_parse_key_list :: "nlattrs \<Rightarrow> fault + (int \<times> yaml_nl_node option)"
  and key_list_loop :: "nlattrs \<Rightarrow> yaml_nl_node option \<Rightarrow> fault + (int \<times> yaml_nl_node option)"
where
  "yaml_parse_key_list list = key_list_loop list None"
| "key_list_loop [] node = Inr (NL_OK, node)"
| "key_list_loop (attr # rest) node =
     (case nla_parse_nested LN_SCALAR_CNT scalar_attr_policy (snd attr) of
        None \<Rightarrow> Inr (NL_OK, node)
      | Some tbl_info \<Rightarrow>
         (case key_record tbl_info node of
            Inl e \<Rightarrow> Inl e
          | Inr (Return node1) \<Rightarrow> Inr (NL_STOP, node1)
          | Inr (Proceed nd) \<Rightarrow>
             (case tb_get tbl_info LN_SCALAR_ATTR_LIST of
                None \<Rightarrow> key_list_loop rest (Some nd)
              | Some (NlaNested sub) \<Rightarrow>
                 (case yaml_parse_key_list sub of
                    Inl e \<Rightarrow> Inl e
                  | Inr (rc, child) \<Rightarrow>
                      if rc \<noteq> NL_OK then Inr (rc, Some (add_tail child nd))
                      else key_list_loop rest (Some (add_tail child nd)))
              | Some _ \<Rightarrow> Inl BadPayload)))"
  by pat_completeness auto
termination
  apply (relation "inv_image (less_than <*lex*> less_than)
      (\<lambda>x. case x of Inl list \<Rightarrow> (attrs_size list, 1)
                    | Inr (list, node) \<Rightarrow> (attrs_size list, 0::nat))")
     apply simp_all
  apply (auto simp: nla_parse_nested_def split: nlattr.splits)
  apply (drule attrs_size_tb_get)
  apply (drule attrs_size_nla_parse)
  apply simp
  done

declare yaml_parse_key_list.simps [simp del]

text \<open>
  \<^verbatim>\<open>yaml_netlink_msg_parse\<close>, the callback for a valid message. A message with
  \<^verbatim>\<open>NLM_F_CREATE\<close> is a key table, any other a batch of values for the node
  \<^verbatim>\<open>data->cur\<close>. The result is the callback's return code and the session.
\<close>

definition install_node :: "yaml_nl_node option \<Rightarrow> yaml_netlink_input \<Rightarrow> yaml_netlink_input" where
  "install_node node d =
     (case node of
        None \<Rightarrow> d
      | Some nd \<Rightarrow> if root d = None then d\<lparr>cur := [], root := Some nd\<rparr>
                   else d\<lparr>unlinked := unlinked d @ [nd]\<rparr>)"

definition yaml_netlink_msg_parse :: "nl_msg \<Rightarrow> yaml_netlink_input \<Rightarrow> fault + (int \<times> yaml_netlink_input)" where
  "yaml_netlink_msg_parse msg d =
     (case
        (if nlmsg_flags msg AND NLM_F_CREATE \<noteq> 0 then
           (case nla_parse (LN_SCALAR_CNT + 1) scalar_attr_policy [] (genl_attrs msg) of
              None \<Rightarrow> Inr (Return (NL_SKIP, d))
            | Some attrs \<Rightarrow>
               (case tb_get attrs LN_SCALAR_ATTR_LIST of
                  None \<Rightarrow> Inr (Proceed d)
                | Some (NlaNested list) \<Rightarrow>
                   (case yaml_parse_key_list list of
                      Inl e \<Rightarrow> Inl e
                    | Inr (rc, node) \<Rightarrow>
                        if rc \<noteq> NL_OK then Inr (Return (rc, install_node node d))
                        else Inr (Proceed ((install_node node d)\<lparr>cur := []\<rparr>)))
                | Some _ \<Rightarrow> Inl BadPayload))
         else
           (case the_node d (cur d) of
              Inl e \<Rightarrow> Inl e
            | Inr node \<Rightarrow>
               (let maxtype = lkl_maxattr node mod 2 ^ 16 in
                case nla_parse maxtype (node_policy maxtype node) [] (genl_attrs msg) of
                  None \<Rightarrow> Inr (Return (NL_SKIP, d))
                | Some attrs \<Rightarrow>
                   (case yaml_parse_value_list d (int (length (raw_buffer (parser d))) - buffer d)
                           attrs (cur d, 1) of
                      Inl e \<Rightarrow> Inl e
                    | Inr (d', sz) \<Rightarrow> Inr (Proceed d'))))) of
        Inl e \<Rightarrow> Inl e
      | Inr (Return r) \<Rightarrow> Inr r
      | Inr (Proceed d') \<Rightarrow>
          if nlmsg_flags msg AND NLM_F_MULTI \<noteq> 0 \<and> nlmsg_type msg \<noteq> NLMSG_DONE
          then Inr (NL_OK, d') else Inr (NL_STOP, d'))"

section \<open>Inbound path: the end of a session\<close>

text \<open>
  \<^verbatim>\<open>cleanup_children\<close>. A node without children has the strings of its keys 1 to
  \<^verbatim>\<open>lkl_maxattr - 1\<close> freed and is taken off its list (the result \<open>True\<close>); the caller
  then frees it. Otherwise the \<^verbatim>\<open>while\<close> loop, \<open>cleanup_while\<close>, takes the first child
  as long as there is one, and the result is \<open>False\<close>. Both return the node as the
  call leaves it and the calls of \<^verbatim>\<open>free\<close> in their order.
\<close>

definition key_strings :: "yaml_nl_node \<Rightarrow> freed_obj list" where
  "key_strings node =
     concat (map (\<lambda>k. case lkp_values k of None \<Rightarrow> [] | Some s \<Rightarrow> [FreedString s])
                 (drop 1 (take (lkl_maxattr node) (lkl_list node))))"

definition set_children :: "yaml_nl_node list \<Rightarrow> yaml_nl_node \<Rightarrow> yaml_nl_node" where
  "set_children cs node = Node (lkl_maxattr node) (lkl_list node) cs"

function cleanup_children :: "yaml_nl_node \<Rightarrow> bool \<times> yaml_nl_node \<times> freed_obj list"
  and cleanup_while :: "yaml_nl_node \<Rightarrow> yaml_nl_node \<times> freed_obj list"
where
  "cleanup_children parent =
     (if children parent = [] then (True, parent, key_strings parent)
      else (case cleanup_while parent of (parent', fs) \<Rightarrow> (False, parent', fs)))"
| "cleanup_while parent =
     (case get_next_child parent 0 of
        None \<Rightarrow> (parent, [])
      | Some child \<Rightarrow>
         (case cleanup_children child of
            (True, child', fs) \<Rightarrow>
              (case cleanup_while (set_children (tl (children parent)) parent) of
                 (parent', fs') \<Rightarrow> (parent', fs @ FreedNode (lkl_list child') # fs'))
          | (False, child', fs) \<Rightarrow>
              (case cleanup_while (set_children (child' # tl (children parent)) parent) of
                 (parent', fs') \<Rightarrow> (parent', fs @ fs'))))"
  by pat_completeness auto

text \<open>
  The loop ends because a child that comes back with \<open>False\<close> has lost its children:
  the second time round it is a leaf.
\<close>

fun node_weight :: "yaml_nl_node \<Rightarrow> nat" where
  "node_weight (Node m ks cs) = (if cs = [] then 1 else 2 + sum_list (map node_weight cs))"

lemma cleanup_shape:
  "cleanup_children_cleanup_while_dom (Inl p) \<Longrightarrow>
     (fst (cleanup_children p) \<longrightarrow> children p = []) \<and>
     (\<not> fst (cleanup_children p) \<longrightarrow>
        children p \<noteq> [] \<and> children (fst (snd (cleanup_children p))) = [])"
  "cleanup_children_cleanup_while_dom (Inr q) \<Longrightarrow> children (fst (cleanup_while q)) = []"
proof (induction p and q rule: cleanup_children_cleanup_while.pinduct)
  case (1 parent)
  show ?case
  proof (cases "children parent = []")
    case True
    then show ?thesis using 1(1) by (simp add: cleanup_children.psimps)
  next
    case False
    from 1(2)[OF False] have "children (fst (cleanup_while parent)) = []" .
    then show ?thesis using 1(1) False
      by (simp add: cleanup_children.psimps split: prod.splits)
  qed
next
  case (2 parent)
  show ?case
  proof (cases "get_next_child parent 0")
    case None
    then have "children parent = []"
      by (cases "children parent") (simp_all add: get_next_child_def)
    with None 2(1) show ?thesis by (simp add: cleanup_while.psimps)
  next
    case (Some child)
    obtain b child' fs where r: "cleanup_children child = (b, child', fs)"
      by (cases "cleanup_children child")
    show ?thesis
    proof (cases b)
      case True
      then have bt: "b = True" by simp
      have "children (fst (cleanup_while (set_children (tl (children parent)) parent))) = []"
        by (rule 2(3)[OF Some r[symmetric] bt refl])
      then show ?thesis using 2(1) Some r True
        by (auto simp: cleanup_while.psimps split: prod.splits)
    next
      case False
      then have bf: "b = False" by simp
      have "children (fst (cleanup_while (set_children (child' # tl (children parent)) parent))) = []"
        by (rule 2(4)[OF Some r[symmetric] bf refl])
      then show ?thesis using 2(1) Some r False
        by (auto simp: cleanup_while.psimps split: prod.splits)
    qed
  qed
qed

lemma get_next_child_0:
  "get_next_child parent 0 = Some c \<Longrightarrow> children parent = c # tl (children parent)"
  by (cases "children parent") (simp_all add: get_next_child_def)

lemma node_weight_children:
  "children p \<noteq> [] \<Longrightarrow> node_weight p = 2 + sum_list (map node_weight (children p))"
  by (cases p) simp

lemma node_weight_leaf: "children p = [] \<Longrightarrow> node_weight p = 1"
  by (cases p) simp

lemma node_weight_pos: "0 < node_weight p"
  by (cases p) simp

termination cleanup_children
proof (relation "inv_image (less_than <*lex*> less_than)
      (\<lambda>x. case x of Inl p \<Rightarrow> (node_weight p, 0::nat)
                    | Inr q \<Rightarrow> (sum_list (map node_weight (children q)), 1::nat))", goal_cases)
  case 1
  show ?case by (intro wf_inv_image wf_lex_prod wf_less_than)
next
  case (2 parent)
  then show ?case by (simp add: node_weight_children)
next
  case (3 parent child)
  from get_next_child_0[OF 3] have "children parent = child # tl (children parent)" .
  then have "sum_list (map node_weight (children parent))
      = node_weight child + sum_list (map node_weight (tl (children parent)))"
    by (metis list.simps(9) sum_list.Cons)
  then have "node_weight child < sum_list (map node_weight (children parent))
      \<or> node_weight child = sum_list (map node_weight (children parent))"
    by linarith
  then show ?case by auto
next
  case (4 parent child x y xa ya)
  from get_next_child_0[OF 4(1)] have "children parent = child # tl (children parent)" .
  then have "sum_list (map node_weight (children parent))
      = node_weight child + sum_list (map node_weight (tl (children parent)))"
    by (metis list.simps(9) sum_list.Cons)
  then show ?case using node_weight_pos[of child] by (simp add: set_children_def)
next
  case (5 parent child x y xa ya)
  from get_next_child_0[OF 5(1)] have "children parent = child # tl (children parent)" .
  then have s: "sum_list (map node_weight (children parent))
      = node_weight child + sum_list (map node_weight (tl (children parent)))"
    by (metis list.simps(9) sum_list.Cons)
  from 5 have r: "cleanup_children child = (False, xa, ya)" by simp
  from cleanup_shape(1)[OF 5(5)] r have "children child \<noteq> []" "children xa = []" by simp_all
  then have "node_weight xa < node_weight child"
    by (simp add: node_weight_children node_weight_leaf)
  then show ?case using s by (simp add: set_children_def)
qed

declare cleanup_children.simps [simp del] cleanup_while.simps [simp del]

text \<open>
  \<^verbatim>\<open>yaml_netlink_msg_complete\<close>, the callback for the last message. The translation of
  an error code (\<^verbatim>\<open>nl_geterror\<close> after \<^verbatim>\<open>nl_syserr2nlerr\<close>) is libnl's and a
  parameter, and so is whether the build has \<^verbatim>\<open>HAVE_USRSPC_NLMSGERR\<close>.
  \<^verbatim>\<open>data->root\<close> keeps its value after \<^verbatim>\<open>free\<close>; what was freed is in \<open>freed\<close>.
\<close>

definition ext_ack_msg :: "nl_msg \<Rightarrow> fault + string option" where
  "ext_ack_msg msg =
     (case ack_attrs msg of
        None \<Rightarrow> Inr None
      | Some tb \<Rightarrow>
         (case tb_get tb NLMSGERR_ATTR_MSG of
            None \<Rightarrow> Inr None
          | Some a \<Rightarrow> map_sum id Some (nla_get_string a)))"

definition yaml_netlink_msg_complete ::
  "bool \<Rightarrow> (int \<Rightarrow> string) \<Rightarrow> (int \<Rightarrow> int) \<Rightarrow> nl_msg \<Rightarrow> yaml_netlink_input
     \<Rightarrow> fault + (int \<times> yaml_netlink_input)" where
  "yaml_netlink_msg_complete have_usrspc_nlmsgerr nl_geterror nl_syserr2nlerr msg d =
     (if (nlmsg_type msg = NLMSG_ERROR \<or> nlmsg_flags msg AND NLM_F_ACK_TLVS \<noteq> 0)
         \<and> nlmsgerr_error msg \<noteq> 0 then
        (case (if have_usrspc_nlmsgerr \<and> nlmsg_flags msg AND NLM_F_ACK_TLVS \<noteq> 0
               then ext_ack_msg msg else Inr None) of
           Inl e \<Rightarrow> Inl e
         | Inr ext \<Rightarrow>
             Inr (NL_STOP,
                  d\<lparr>errmsg := Some (case ext of
                                      None \<Rightarrow> nl_geterror (nl_syserr2nlerr (nlmsgerr_error msg))
                                    | Some s \<Rightarrow> s),
                    parser := (parser d)\<lparr>error := YAML_READER_ERROR\<rparr>,
                    complete := True\<rparr>))
      else
        (case root d of
           None \<Rightarrow> Inl NullDeref
         | Some r \<Rightarrow>
            (case cleanup_children r of
               (b, r', fs) \<Rightarrow>
                 Inr (NL_STOP,
                      d\<lparr>freed := freed d @ fs @ [FreedNode (lkl_list r')], complete := True\<rparr>))))"

text \<open>
  \<^verbatim>\<open>yaml_netlink_read_handler(arg, buffer, size, size_read)\<close>. The transport,
  \<^verbatim>\<open>nl_recvmsgs_report\<close> with the callbacks it runs on the session, is the parameter
  \<open>recv\<close>: it returns libnl's result code and the session as the callbacks left it.
  \<open>buf\<close> is the offset of the caller's buffer in the raw buffer and \<open>size_read\<close> the
  value \<^verbatim>\<open>*size_read\<close> has on entry. The result is the return value, \<^verbatim>\<open>*size_read\<close>
  and the session.
\<close>

definition yaml_netlink_read_handler ::
  "(yaml_netlink_input \<Rightarrow> int \<times> yaml_netlink_input) \<Rightarrow> (int \<Rightarrow> string)
     \<Rightarrow> yaml_netlink_input \<Rightarrow> int \<Rightarrow> int \<Rightarrow> int \<Rightarrow> int \<times> int \<times> yaml_netlink_input" where
  "yaml_netlink_read_handler recv nl_geterror d buf sz size_read =
     (if complete d then (1, 0, d)
      else
        (case recv (d\<lparr>buffer := buf\<rparr>) of
           (rc, d1) \<Rightarrow>
             if rc = - NLE_INTR then (1, 0, d1)
             else if rc < 0 then (0, size_read, d1\<lparr>errmsg := Some (nl_geterror rc)\<rparr>)
             else if error (parser d1) \<noteq> YAML_NO_ERROR then (0, size_read, d1)
             else
               (let rc' = to_int32 (buffer d1 - buf) in
                (1, (if to_int32 sz > rc' then to_size_t rc' else sz), d1))))"

text \<open>
  \<^verbatim>\<open>yaml_parser_get_reader_error\<close>: the argument is the parser's
  \<^verbatim>\<open>read_handler_data\<close>, \<open>None\<close> for NULL.
\<close>

definition yaml_parser_get_reader_error :: "yaml_netlink_input option \<Rightarrow> string option" where
  "yaml_parser_get_reader_error buf = (case buf of None \<Rightarrow> None | Some b \<Rightarrow> errmsg b)"

section \<open>Notions the properties are stated with\<close>

text \<open>The key tables of a schema tree in post-order: every child's subtree, then the node.\<close>

fun postorder :: "yaml_nl_node \<Rightarrow> ln_key_props list list" where
  "postorder (Node m ks cs) = concat (map postorder cs) @ [ks]"

text \<open>The nodes among the freed objects, in the order they were freed.\<close>

fun freed_nodes :: "freed_obj list \<Rightarrow> ln_key_props list list" where
  "freed_nodes [] = []"
| "freed_nodes (FreedNode ks # fs) = ks # freed_nodes fs"
| "freed_nodes (FreedString s # fs) = freed_nodes fs"

text \<open>
  A final message carries a kernel-reported error when it is an error message or has
  extended-ack attributes, and its error code is not 0.
\<close>

definition kernel_error :: "nl_msg \<Rightarrow> bool" where
  "kernel_error msg \<longleftrightarrow>
     (nlmsg_type msg = NLMSG_ERROR \<or> nlmsg_flags msg AND NLM_F_ACK_TLVS \<noteq> 0)
     \<and> nlmsgerr_error msg \<noteq> 0"

text \<open>
  The session \<open>d\<close> with the raw buffer \<open>A @ B\<close> and the write pointer at the end of
  \<open>A\<close>; and the locals of a call on such a session.
\<close>

definition at_buffer :: "yaml_netlink_input \<Rightarrow> char list \<Rightarrow> char list \<Rightarrow> yaml_netlink_input" where
  "at_buffer d A B = d\<lparr>parser := (parser d)\<lparr>raw_buffer := A @ B\<rparr>, buffer := int (length A)\<rparr>"

definition locals_at ::
  "yaml_netlink_input \<Rightarrow> char list \<Rightarrow> char list \<Rightarrow> int \<Rightarrow> int \<Rightarrow> nat \<Rightarrow> int \<Rightarrow> value_locals" where
  "locals_at d A B n mp c l =
     \<lparr>vl_data = at_buffer d A B, vl_size = n, vl_mapping = mp, vl_child_idx = c, vl_len = l\<rparr>"

section \<open>Outbound path: structure inference\<close>

text \<open>\<^verbatim>\<open>isspace\<close> in the C locale.\<close>

definition isspace :: "char \<Rightarrow> bool" where
  "isspace c = (c = CHR '' '' \<or> c = CHR 0x09 \<or> c = CHR 0x0A \<or> c = CHR 0x0B
                \<or> c = CHR 0x0C \<or> c = CHR 0x0D)"

text \<open>\<^verbatim>\<open>indent_level\<close>: the number of leading whitespace characters of the line.\<close>

definition indent_level :: "string \<Rightarrow> int" where
  "indent_level str = to_uint (int (length (takeWhile isspace str)))"

text \<open>
  \<^verbatim>\<open>yaml_format_type(emitter, line, &offset, prev)\<close>. The emitter enters only through
  its \<^verbatim>\<open>best_indent\<close>; the result is the returned format and the new value of
  \<^verbatim>\<open>*offset\<close>.
\<close>

definition yaml_format_type :: "int \<Rightarrow> string \<Rightarrow> int \<Rightarrow> int \<Rightarrow> int \<times> int" where
  "yaml_format_type best_indent line offset prev =
     (let indent = offset; new_indent = indent_level line in
      if CHR ''{'' \<in> set line \<or> CHR ''['' \<in> set line then (LNKF_FLOW, offset)
      else if new_indent < indent then (LNKF_END, to_uint (indent - best_indent))
      else if take 2 (drop (nat new_indent) line) = ''- ''
        then (LNKF_SEQUENCE, to_uint (new_indent + best_indent))
      else if indent \<noteq> new_indent
        then (if prev \<noteq> LNKF_MAPPING then (LNKF_MAPPING, new_indent) else (0, new_indent))
      else (0, offset))"

text \<open>
  The classification in the words of the specification: FLOW on a bracket; SEQUENCE, the
  base advanced by two, on a leading dash; END on decreased indentation; MAPPING on
  increased indentation; a plain scalar (0) otherwise. Only the returned format is
  described there.
\<close>

definition spec_format_type :: "string \<Rightarrow> int \<Rightarrow> int" where
  "spec_format_type line base =
     (if CHR ''{'' \<in> set line \<or> CHR ''['' \<in> set line then LNKF_FLOW
      else if take 2 (drop (nat (indent_level line)) line) = ''- '' then LNKF_SEQUENCE
      else if indent_level line < base then LNKF_END
      else if indent_level line > base then LNKF_MAPPING
      else 0)"

section \<open>Outbound path: the write callback\<close>

text \<open>
  The callback works on a copy of the emitter's text, \<^verbatim>\<open>buf\<close>, through pointers into
  it. The copy is a list of characters that ends with NUL, a pointer is an offset into
  it, and \<open>None\<close> is NULL. Reading a string at an offset from which no NUL follows
  inside the copy leaves the copy: it is a fault.
\<close>

definition c_str_at :: "char list \<Rightarrow> nat \<Rightarrow> fault + string" where
  "c_str_at buf p =
     (if p < length buf \<and> CHR 0x00 \<in> set (drop p buf)
      then Inr (takeWhile (\<lambda>c. c \<noteq> CHR 0x00) (drop p buf))
      else Inl BufferOverrun)"

text \<open>\<^verbatim>\<open>strchr(s, c)\<close> for a character \<open>c\<close> other than NUL.\<close>

definition c_strchr :: "char list \<Rightarrow> nat \<Rightarrow> char \<Rightarrow> fault + nat option" where
  "c_strchr buf p c =
     (case c_str_at buf p of
        Inl e \<Rightarrow> Inl e
      | Inr s \<Rightarrow> if c \<in> set s then Inr (Some (p + length (takeWhile (\<lambda>x. x \<noteq> c) s)))
                 else Inr None)"

text \<open>
  \<^verbatim>\<open>strsep(&ptr, delim)\<close> with a single delimiter: the result is the copy, the token
  returned and the new value of \<^verbatim>\<open>ptr\<close>.
\<close>

definition c_strsep :: "char list \<Rightarrow> nat option \<Rightarrow> char \<Rightarrow> fault + (char list \<times> nat option \<times> nat option)" where
  "c_strsep buf ptr c =
     (case ptr of
        None \<Rightarrow> Inr (buf, None, None)
      | Some p \<Rightarrow>
         (case c_strchr buf p c of
            Inl e \<Rightarrow> Inl e
          | Inr None \<Rightarrow> Inr (buf, Some p, None)
          | Inr (Some q) \<Rightarrow> Inr (buf[q := CHR 0x00], Some p, Some (Suc q))))"

text \<open>
  What is appended to the outgoing message (\<^verbatim>\<open>nla_nest_start\<close>, \<^verbatim>\<open>NLA_PUT_STRING\<close>,
  \<^verbatim>\<open>nla_nest_end\<close>, with the attribute's tag), and what is sent: the message built by
  \<^verbatim>\<open>genlmsg_put\<close> with its header (pid, family id, flags, command, version) and its
  attributes, or the simple message of \<^verbatim>\<open>genl_send_simple\<close> (family id, command,
  version, flags).
\<close>

datatype nl_event = NestStart nat | PutString nat string | NestEnd

datatype sent_msg =
    SentAuto "int \<times> int \<times> int \<times> int \<times> int" "nl_event list"
  | SentSimple int int int int

text \<open>
  The transport handle \<^verbatim>\<open>struct nl_sock\<close>, as what its primitives return: the id of a
  group of a family (negative when there is none), and the result codes of joining a
  group and of the two ways of sending.
\<close>

record nl_sock =
  genl_ctrl_resolve_grp :: "string \<Rightarrow> string \<Rightarrow> int"
  nl_socket_add_membership :: "int \<Rightarrow> int"
  nl_send_auto :: "nl_event list \<Rightarrow> int"
  genl_send_simple :: "int \<Rightarrow> int \<Rightarrow> int \<Rightarrow> int \<Rightarrow> int"

text \<open>
  \<^verbatim>\<open>struct yaml_netlink_output\<close> with the fields of its emitter that the file uses
  (\<^verbatim>\<open>error\<close>, \<^verbatim>\<open>problem\<close>, \<^verbatim>\<open>best_indent\<close>). Two fields are not in the struct:
  \<open>memberships\<close> lists the groups joined and \<open>sent\<close> the messages handed to the
  transport for sending, in order.
\<close>

record yaml_netlink_output =
  emitter_error :: yaml_error_type_e
  emitter_problem :: "string option"
  emitter_best_indent :: int
  family :: string
  family_id :: int
  version :: int
  cmd :: int
  pid :: int
  flags :: int
  memberships :: "int list"
  sent :: "sent_msg list"

definition yaml_emitter_set_writer_error :: "string \<Rightarrow> yaml_netlink_output \<Rightarrow> yaml_netlink_output" where
  "yaml_emitter_set_writer_error problem out =
     out\<lparr>emitter_error := YAML_WRITER_ERROR, emitter_problem := Some problem\<rparr>"

text \<open>\<^verbatim>\<open>lustre_netlink_add_group\<close>: the result code and the output with the group joined.\<close>

definition lustre_netlink_add_group ::
  "nl_sock \<Rightarrow> string \<Rightarrow> string \<Rightarrow> yaml_netlink_output \<Rightarrow> int \<times> yaml_netlink_output" where
  "lustre_netlink_add_group nl fam grp out =
     (let group_id = genl_ctrl_resolve_grp nl fam grp in
      if group_id < 0 then (group_id, out)
      else (let rc = nl_socket_add_membership nl group_id in
            (rc, if rc < 0 then out else out\<lparr>memberships := memberships out @ [group_id]\<rparr>)))"

text \<open>
  What the write callback and \<^verbatim>\<open>yaml_create_nested_list\<close> share: the output, the copy
  of the text, \<^verbatim>\<open>entry\<close> (the rest of the text), \<^verbatim>\<open>indent\<close> and the message,
  \<open>None\<close> while it is not allocated. Allocating the message and appending to it always
  succeed in the model.
\<close>

record write_locals =
  wl_out :: yaml_netlink_output
  wl_buf :: "char list"
  wl_entry :: "nat option"
  wl_indent :: int
  wl_msg :: "nl_event list option"

definition nla_put :: "nl_event \<Rightarrow> write_locals \<Rightarrow> write_locals" where
  "nla_put ev w = w\<lparr>wl_msg := map_option (\<lambda>m. m @ [ev]) (wl_msg w)\<rparr>"

text \<open>\<^verbatim>\<open>NLA_PUT_STRING(msg, LN_SCALAR_ATTR_VALUE, p)\<close> for a pointer \<open>p\<close> into the copy.\<close>

definition put_string_at :: "nat \<Rightarrow> write_locals \<Rightarrow> fault + write_locals" where
  "put_string_at p w =
     (case c_str_at (wl_buf w) p of
        Inl e \<Rightarrow> Inl e
      | Inr s \<Rightarrow> Inr (nla_put (PutString 5 s) w))"

text \<open>
  \<^verbatim>\<open>yaml_format_type(out->emitter, line, indent, prev)\<close> on the string at \<open>line\<close>:
  the format, and the locals with the new \<^verbatim>\<open>*indent\<close>.
\<close>

definition format_type_at :: "nat \<Rightarrow> int \<Rightarrow> write_locals \<Rightarrow> fault + (int \<times> write_locals)" where
  "format_type_at line prev w =
     (case c_str_at (wl_buf w) line of
        Inl e \<Rightarrow> Inl e
      | Inr s \<Rightarrow>
         (case yaml_format_type (emitter_best_indent (wl_out w)) s (wl_indent w) prev of
            (fmt, offset) \<Rightarrow> Inr (fmt, w\<lparr>wl_indent := offset\<rparr>)))"

text \<open>
  The flow branch of \<^verbatim>\<open>yaml_create_nested_list\<close>, lines 1035 to 1052: the tokens of
  \<^verbatim>\<open>*hdr\<close> between commas. A token that holds a brace, a bracket or a space loses its
  first character, and the token ends at the first closing brace or else closing bracket.
\<close>

definition flow_token :: "nat \<Rightarrow> write_locals \<Rightarrow> fault + write_locals" where
  "flow_token line w =
     (case c_str_at (wl_buf w) line of
        Inl e \<Rightarrow> Inl e
      | Inr s \<Rightarrow>
         (let line1 = (if CHR ''{'' \<in> set s \<or> CHR ''['' \<in> set s \<or> CHR '' '' \<in> set s
                       then Suc line else line) in
          case c_strchr (wl_buf w) line1 CHR ''}'' of
            Inl e \<Rightarrow> Inl e
          | Inr t1 \<Rightarrow>
             (case (case t1 of Some t \<Rightarrow> Inr (Some t) | None \<Rightarrow> c_strchr (wl_buf w) line1 CHR '']'') of
                Inl e \<Rightarrow> Inl e
              | Inr tmp \<Rightarrow>
                  put_string_at line1
                    (case tmp of None \<Rightarrow> w
                     | Some t \<Rightarrow> w\<lparr>wl_buf := (wl_buf w)[t := CHR 0x00]\<rparr>))))"

lemma c_strsep_next:
  assumes "c_strsep buf (Some p) c = Inr (buf', tok, Some p')"
  shows "p < p' \<and> p' \<le> length buf \<and> length buf' = length buf"
proof -
  from assms obtain s where s: "c_str_at buf p = Inr s" and c: "c \<in> set s"
    and p': "p' = Suc (p + length (takeWhile (\<lambda>x. x \<noteq> c) s))" and b: "buf' = buf[p' - 1 := CHR 0x00]"
    by (auto simp: c_strsep_def c_strchr_def split: sum.splits if_splits)
  from s have sd: "s = takeWhile (\<lambda>c. c \<noteq> CHR 0x00) (drop p buf)" and pl: "p < length buf"
    by (auto simp: c_str_at_def split: if_splits)
  from c have "length (takeWhile (\<lambda>x. x \<noteq> c) s) < length s"
    by (induction s) auto
  moreover have "length s \<le> length buf - p"
    unfolding sd by (rule order_trans [OF length_takeWhile_le]) simp
  ultimately show ?thesis using p' b pl by simp
qed

function flow_loop :: "write_locals \<Rightarrow> nat option \<Rightarrow> fault + write_locals" where
  "flow_loop w hdr =
     (case c_strsep (wl_buf w) hdr CHR '','' of
        Inl e \<Rightarrow> Inl e
      | Inr (buf', None, hdr') \<Rightarrow> Inr w
      | Inr (buf', Some line, hdr') \<Rightarrow>
         (case flow_token line (w\<lparr>wl_buf := buf'\<rparr>) of
            Inl e \<Rightarrow> Inl e
          | Inr w' \<Rightarrow> flow_loop w' hdr'))"
  by pat_completeness auto

lemma flow_token_length:
  "flow_token line w = Inr w' \<Longrightarrow> length (wl_buf w') = length (wl_buf w)"
  by (auto simp: flow_token_def put_string_at_def nla_put_def Let_def
      split: sum.splits option.splits if_splits)

termination flow_loop
  apply (relation "measure (\<lambda>(w, hdr). case hdr of None \<Rightarrow> 0 | Some p \<Rightarrow> Suc (length (wl_buf w) - p))")
   apply simp
  subgoal for w hdr x buf' y tok hdr' line w'
    apply (cases hdr; cases hdr')
       apply (auto simp: c_strsep_def split: sum.splits option.splits dest!: flow_token_length)[3]
    apply (auto dest!: flow_token_length c_strsep_next)
    done
  done

text \<open>
  \<^verbatim>\<open>yaml_create_nested_list(out, msg, hdr, entry, indent, fmt)\<close>. The result is the
  return code, the shared locals and the new value of \<^verbatim>\<open>*hdr\<close>. \<open>nested_lines\<close> is
  the \<^verbatim>\<open>do\<close> loop from its \<^verbatim>\<open>strsep\<close> on and \<open>have_next_line\<close> the loop from the
  label of that name on; both run to the end of the function, so their results are
  the local \<^verbatim>\<open>line\<close> in place of \<^verbatim>\<open>*hdr\<close>.
\<close>

function yaml_create_nested_list ::
    "write_locals \<Rightarrow> nat option \<Rightarrow> int \<Rightarrow> fault + (int \<times> write_locals \<times> nat option)"
  and nested_lines :: "write_locals \<Rightarrow> int \<Rightarrow> fault + (int \<times> write_locals \<times> nat option)"
  and have_next_line ::
    "write_locals \<Rightarrow> nat option \<Rightarrow> int \<Rightarrow> fault + (int \<times> write_locals \<times> nat option)"
where
  "yaml_create_nested_list w hdr fmt =
     (if fmt AND LNKF_FLOW \<noteq> 0 then
        (case flow_loop (nla_put (NestStart 1) w) hdr of
           Inl e \<Rightarrow> Inl e
         | Inr w2 \<Rightarrow> Inr (0, nla_put NestEnd w2, None))
      else
        (case hdr of
           None \<Rightarrow> Inl NullDeref
         | Some h \<Rightarrow>
            (case put_string_at (h + nat (wl_indent w)) (nla_put (NestStart 1) w) of
               Inl e \<Rightarrow> Inl e
             | Inr w2 \<Rightarrow>
                (case nested_lines w2 fmt of
                   Inl e \<Rightarrow> Inl e
                 | Inr (rc, w3, line) \<Rightarrow>
                     if rc \<noteq> 0 then Inr (rc, w3, hdr)
                     else Inr (rc, nla_put NestEnd w3, line)))))"
| "nested_lines w fmt =
     (case c_strsep (wl_buf w) (wl_entry w) CHR 0x0A of
        Inl e \<Rightarrow> Inl e
      | Inr (buf', line, entry') \<Rightarrow>
          have_next_line (w\<lparr>wl_buf := buf', wl_entry := entry'\<rparr>) line fmt)"
| "have_next_line w line fmt =
     (case line of
        None \<Rightarrow> Inr (0, w, None)
      | Some l \<Rightarrow>
         (case c_str_at (wl_buf w) l of
            Inl e \<Rightarrow> Inl e
          | Inr s \<Rightarrow>
             if length s = 0 \<or> s = ''...'' then Inr (0, w, line)
             else
               (case format_type_at l fmt w of
                  Inl e \<Rightarrow> Inl e
                | Inr (fmt', w1) \<Rightarrow>
                   if fmt' = LNKF_END then Inr (0, w1, line)
                   else if fmt' \<noteq> 0 then
                     (case yaml_create_nested_list w1 line fmt' of
                        Inl e \<Rightarrow> Inl e
                      | Inr (rc, w2, line2) \<Rightarrow>
                          if rc \<noteq> 0 then Inr (rc, w2, line2)
                          else have_next_line w2 line2 fmt')
                   else
                     (case put_string_at (l + nat (wl_indent w1)) w1 of
                        Inl e \<Rightarrow> Inl e
                      | Inr w2 \<Rightarrow>
                          if s \<noteq> [] then nested_lines w2 fmt' else Inr (0, w2, line)))))"
  by pat_completeness auto

text \<open>The part of the text that \<^verbatim>\<open>entry\<close> still has to go through.\<close>

definition entry_left :: "write_locals \<Rightarrow> nat" where
  "entry_left w = (case wl_entry w of None \<Rightarrow> 0 | Some p \<Rightarrow> Suc (length (wl_buf w) - p))"

text \<open>The message exists and holds at least one attribute.\<close>

definition has_attrs :: "write_locals \<Rightarrow> bool" where
  "has_attrs w = (case wl_msg w of None \<Rightarrow> False | Some m \<Rightarrow> m \<noteq> [])"

lemma flow_loop_keeps:
  "flow_loop w hdr = Inr w' \<Longrightarrow>
     length (wl_buf w') = length (wl_buf w) \<and> wl_entry w' = wl_entry w
     \<and> wl_out w' = wl_out w \<and> (has_attrs w \<longrightarrow> has_attrs w')"
proof (induction w hdr arbitrary: w' rule: flow_loop.induct)
  case (1 w hdr)
  show ?case
  proof (cases "c_strsep (wl_buf w) hdr CHR '',''")
    case (Inl e)
    with 1(2) show ?thesis by (simp add: flow_loop.simps)
  next
    case (Inr r)
    obtain buf' tok hdr' where r: "r = (buf', tok, hdr')" by (cases r)
    show ?thesis
    proof (cases tok)
      case None
      with 1(2) Inr r show ?thesis by (simp add: flow_loop.simps)
    next
      case (Some line)
      from Inr r have lb: "length buf' = length (wl_buf w)"
        by (auto simp: c_strsep_def split: option.splits sum.splits)
      from 1(2) Inr r Some obtain w1 where t: "flow_token line (w\<lparr>wl_buf := buf'\<rparr>) = Inr w1"
        and f: "flow_loop w1 hdr' = Inr w'"
        by (auto simp: flow_loop.simps split: sum.splits)
      from t have k: "length (wl_buf w1) = length buf'" "wl_entry w1 = wl_entry w"
        "wl_out w1 = wl_out w" "has_attrs w \<longrightarrow> has_attrs w1"
        by (auto simp: flow_token_def put_string_at_def nla_put_def Let_def has_attrs_def
            split: sum.splits option.splits if_splits)
      from 1(1)[OF Inr r[symmetric] refl _ t f] Some k lb show ?thesis by simp
    qed
  qed
qed

lemma put_keeps:
  "wl_buf (nla_put ev w) = wl_buf w" "wl_entry (nla_put ev w) = wl_entry w"
  "wl_indent (nla_put ev w) = wl_indent w" "wl_out (nla_put ev w) = wl_out w"
  "entry_left (nla_put ev w) = entry_left w"
  "wl_msg w \<noteq> None \<Longrightarrow> has_attrs (nla_put ev w)"
  "has_attrs w \<Longrightarrow> has_attrs (nla_put ev w)"
  by (auto simp: nla_put_def entry_left_def has_attrs_def split: option.splits)

lemma put_string_keeps:
  "put_string_at p w = Inr w' \<Longrightarrow>
     wl_buf w' = wl_buf w \<and> wl_entry w' = wl_entry w \<and> entry_left w' = entry_left w
     \<and> wl_out w' = wl_out w \<and> wl_indent w' = wl_indent w
     \<and> (wl_msg w \<noteq> None \<longrightarrow> has_attrs w') \<and> (has_attrs w \<longrightarrow> has_attrs w')"
  by (auto simp: put_string_at_def put_keeps split: sum.splits)

lemma format_type_keeps:
  "format_type_at l prev w = Inr (fmt, w') \<Longrightarrow>
     wl_buf w' = wl_buf w \<and> wl_entry w' = wl_entry w \<and> entry_left w' = entry_left w
     \<and> wl_out w' = wl_out w \<and> wl_msg w' = wl_msg w \<and> has_attrs w' = has_attrs w"
  by (auto simp: format_type_at_def entry_left_def has_attrs_def
      split: sum.splits prod.splits option.splits)

lemma strsep_entry_left:
  assumes "c_strsep (wl_buf w) (wl_entry w) c = Inr (buf', line, entry')"
  shows "length buf' = length (wl_buf w)"
    and "entry_left (w\<lparr>wl_buf := buf', wl_entry := entry'\<rparr>) \<le> entry_left w"
    and "line = None \<or> entry_left (w\<lparr>wl_buf := buf', wl_entry := entry'\<rparr>) < entry_left w"
proof -
  show l: "length buf' = length (wl_buf w)"
    using assms by (auto simp: c_strsep_def split: option.splits sum.splits)
  show "line = None \<or> entry_left (w\<lparr>wl_buf := buf', wl_entry := entry'\<rparr>) < entry_left w"
  proof (cases "wl_entry w")
    case None
    with assms show ?thesis by (simp add: c_strsep_def)
  next
    case (Some p)
    show ?thesis
    proof (cases entry')
      case None
      then show ?thesis using Some by (simp add: entry_left_def)
    next
      case (Some p')
      from c_strsep_next [of "wl_buf w" p c buf' line p'] assms \<open>wl_entry w = Some p\<close> Some
      have "p < p'" "p' \<le> length (wl_buf w)" by simp_all
      then have "length (wl_buf w) - p' < length (wl_buf w) - p" by arith
      then show ?thesis using Some \<open>wl_entry w = Some p\<close> l by (simp add: entry_left_def)
    qed
  qed
  then show "entry_left (w\<lparr>wl_buf := buf', wl_entry := entry'\<rparr>) \<le> entry_left w"
  proof (cases "wl_entry w")
    case None
    with assms show ?thesis by (simp add: c_strsep_def entry_left_def)
  next
    case (Some p)
    with assms have "line = Some p"
      by (simp add: c_strsep_def split: sum.splits option.splits)
    then have "line \<noteq> None" by simp
    with \<open>line = None \<or> entry_left (w\<lparr>wl_buf := buf', wl_entry := entry'\<rparr>) < entry_left w\<close>
    show ?thesis by simp
  qed
qed

lemma nested_list_entry_left:
  "yaml_create_nested_list_nested_lines_have_next_line_dom (Inl (w, hdr, fmt)) \<Longrightarrow>
     yaml_create_nested_list w hdr fmt = Inr (rc, w', l') \<Longrightarrow>
       length (wl_buf w') = length (wl_buf w) \<and> entry_left w' \<le> entry_left w
       \<and> (rc = 0 \<longrightarrow> l' = None \<or> entry_left w' < entry_left w)
       \<and> wl_out w' = wl_out w \<and> (wl_msg w \<noteq> None \<longrightarrow> has_attrs w')"
  "yaml_create_nested_list_nested_lines_have_next_line_dom (Inr (Inl (w1, fmt1))) \<Longrightarrow>
     nested_lines w1 fmt1 = Inr (rc1, w1', l1') \<Longrightarrow>
       length (wl_buf w1') = length (wl_buf w1) \<and> entry_left w1' \<le> entry_left w1
       \<and> (rc1 = 0 \<longrightarrow> l1' = None \<or> entry_left w1' < entry_left w1)
       \<and> wl_out w1' = wl_out w1 \<and> (has_attrs w1 \<longrightarrow> has_attrs w1')"
  "yaml_create_nested_list_nested_lines_have_next_line_dom (Inr (Inr (w2, line2, fmt2))) \<Longrightarrow>
     have_next_line w2 line2 fmt2 = Inr (rc2, w2', l2') \<Longrightarrow>
       length (wl_buf w2') = length (wl_buf w2) \<and> entry_left w2' \<le> entry_left w2
       \<and> (line2 = None \<longrightarrow> l2' = None)
       \<and> wl_out w2' = wl_out w2 \<and> (has_attrs w2 \<longrightarrow> has_attrs w2')"
proof (induction w hdr fmt and w1 fmt1 and w2 line2 fmt2
    arbitrary: rc w' l' and rc1 w1' l1' and rc2 w2' l2'
    rule: yaml_create_nested_list_nested_lines_have_next_line.pinduct)
  case (1 w hdr fmt)
  show ?case
  proof (cases "fmt AND LNKF_FLOW \<noteq> 0")
    case True
    with 1(1,3) obtain wf where f: "flow_loop (nla_put (NestStart 1) w) hdr = Inr wf"
      and r: "w' = nla_put NestEnd wf" "l' = None"
      by (auto simp: yaml_create_nested_list.psimps split: sum.splits)
    from flow_loop_keeps [OF f] r show ?thesis
      by (auto simp: put_keeps entry_left_def split: option.splits)
  next
    case False
    with 1(1,3) obtain h wp rcn wn ln where h: "hdr = Some h"
      and p: "put_string_at (h + nat (wl_indent w)) (nla_put (NestStart 1) w) = Inr wp"
      and n: "nested_lines wp fmt = Inr (rcn, wn, ln)"
      and r: "(rc, w', l') = (if rcn \<noteq> 0 then (rcn, wn, hdr) else (rcn, nla_put NestEnd wn, ln))"
      by (auto simp: yaml_create_nested_list.psimps split: sum.splits option.splits if_splits)
    from 1(2) [OF False h p n]
    have "length (wl_buf wn) = length (wl_buf wp)" "entry_left wn \<le> entry_left wp"
      "rcn = 0 \<longrightarrow> ln = None \<or> entry_left wn < entry_left wp"
      "wl_out wn = wl_out wp" "has_attrs wp \<longrightarrow> has_attrs wn"
      by simp_all
    moreover from put_string_keeps [OF p]
    have "wl_buf wp = wl_buf w" "entry_left wp = entry_left w" "wl_out wp = wl_out w"
      "wl_msg w \<noteq> None \<longrightarrow> has_attrs wp"
      by (simp_all add: put_keeps)
    ultimately show ?thesis using r by (auto simp: put_keeps split: if_splits)
  qed
next
  case (2 w fmt)
  from 2(1,3) obtain buf' line entry'
    where s: "c_strsep (wl_buf w) (wl_entry w) CHR 0x0A = Inr (buf', line, entry')"
      and h: "have_next_line (w\<lparr>wl_buf := buf', wl_entry := entry'\<rparr>) line fmt = Inr (rc1, w1', l1')"
    by (auto simp: nested_lines.psimps split: sum.splits prod.splits)
  from 2(2) [OF s refl refl h]
  have i: "length (wl_buf w1') = length buf'"
    "entry_left w1' \<le> entry_left (w\<lparr>wl_buf := buf', wl_entry := entry'\<rparr>)"
    "line = None \<longrightarrow> l1' = None"
    "wl_out w1' = wl_out w" "has_attrs w \<longrightarrow> has_attrs w1'"
    by (simp_all add: has_attrs_def)
  note e = strsep_entry_left [OF s]
  have "l1' = None \<or> entry_left w1' < entry_left w"
  proof (cases line)
    case None
    with i(3) show ?thesis by simp
  next
    case (Some a)
    with e(3) i(2) show ?thesis by simp
  qed
  with i e show ?case by simp
next
  case (3 w line fmt)
  show ?case
  proof (cases line)
    case None
    with 3(1,5) show ?thesis by (auto simp: have_next_line.psimps)
  next
    case (Some l)
    from 3(1,5) Some obtain s where s: "c_str_at (wl_buf w) l = Inr s"
      by (auto simp: have_next_line.psimps split: sum.splits)
    show ?thesis
    proof (cases "length s = 0 \<or> s = ''...''")
      case True
      with 3(1,5) Some s show ?thesis by (auto simp: have_next_line.psimps)
    next
      case False
      with 3(1,5) Some s obtain fmt' wf where f: "format_type_at l fmt w = Inr (fmt', wf)"
        by (auto simp: have_next_line.psimps split: sum.splits)
      note fk = format_type_keeps [OF f]
      show ?thesis
      proof (cases "fmt' = LNKF_END")
        case True
        with 3(1,5) Some s False f fk show ?thesis by (auto simp: have_next_line.psimps)
      next
        case ne: False
        show ?thesis
        proof (cases "fmt' \<noteq> 0")
          case True
          with 3(1,5) Some s False f ne obtain rcc wc lc
            where c: "yaml_create_nested_list wf line fmt' = Inr (rcc, wc, lc)"
              and r: "if rcc \<noteq> 0 then (rc2, w2', l2') = (rcc, wc, lc)
                      else have_next_line wc lc fmt' = Inr (rc2, w2', l2')"
            by (auto simp: have_next_line.psimps split: sum.splits if_splits)
          from 3(2) [OF Some s False f refl ne True c]
          have pc: "length (wl_buf wc) = length (wl_buf wf)" "entry_left wc \<le> entry_left wf"
            "wl_out wc = wl_out wf" "has_attrs wf \<longrightarrow> has_attrs wc"
            by (auto simp: has_attrs_def split: option.splits)
          show ?thesis
          proof (cases "rcc \<noteq> 0")
            case True
            with r pc fk Some show ?thesis by auto
          next
            case False
            with r have h: "have_next_line wc lc fmt' = Inr (rc2, w2', l2')" by simp
            from 3(3) [OF Some s \<open>\<not> (length s = 0 \<or> s = ''...'')\<close> f refl ne \<open>fmt' \<noteq> 0\<close> c refl refl False h]
            have "length (wl_buf w2') = length (wl_buf wc)" "entry_left w2' \<le> entry_left wc"
              "wl_out w2' = wl_out wc" "has_attrs wc \<longrightarrow> has_attrs w2'"
              by simp_all
            with pc fk Some show ?thesis by auto
          qed
        next
          case z: False
          with 3(1,5) Some s False f ne obtain wp
            where p: "put_string_at (l + nat (wl_indent wf)) wf = Inr wp"
              and r: "if s \<noteq> [] then nested_lines wp fmt' = Inr (rc2, w2', l2')
                      else (rc2, w2', l2') = (0, wp, line)"
            by (auto simp: have_next_line.psimps split: sum.splits if_splits)
          note pk = put_string_keeps [OF p]
          from False have sn: "s \<noteq> []" by simp
          with r have n: "nested_lines wp fmt' = Inr (rc2, w2', l2')" by simp
          from 3(4) [OF Some s False f refl ne z p sn n]
          have "length (wl_buf w2') = length (wl_buf wp)" "entry_left w2' \<le> entry_left wp"
            "wl_out w2' = wl_out wp" "has_attrs wp \<longrightarrow> has_attrs w2'"
            by simp_all
          with pk fk Some show ?thesis by auto
        qed
      qed
    qed
  qed
qed

lemma nested_list_total: "All yaml_create_nested_list_nested_lines_have_next_line_dom"
proof (rule "yaml_create_nested_list_nested_lines_have_next_line.termination"
    [where R = "inv_image (less_than <*lex*> less_than)
    (\<lambda>x. case x of
        Inl (w, hdr, fmt) \<Rightarrow> (entry_left w, 2::nat)
      | Inr (Inl (w, fmt)) \<Rightarrow> (entry_left w, 1)
      | Inr (Inr (w, line, fmt)) \<Rightarrow> (entry_left w, if line = None then 0 else 3))"], goal_cases)
  case 1
  show ?case by (intro wf_inv_image wf_lex_prod wf_less_than)
next
  case (2 w hdr fmt h b)
  from put_string_keeps [OF 2(3)] show ?case by (simp add: put_keeps)
next
  case (3 w fmt b x y xa ya)
  then have s: "c_strsep (wl_buf w) (wl_entry w) CHR 0x0A = Inr (x, xa, ya)" by simp
  from strsep_entry_left(2,3) [OF s] show ?case by auto
next
  case (4 w line fmt l s ba x y)
  then have "format_type_at l fmt w = Inr (x, y)" by simp
  from format_type_keeps [OF this] 4(1) show ?case by simp
next
  case (5 w line fmt l s ba x y bb xa ya xb yb)
  then have f: "format_type_at l fmt w = Inr (x, y)"
    and c: "yaml_create_nested_list y line x = Inr (0, xb, yb)"
    by simp_all
  from nested_list_entry_left(1) [OF 5(12) c]
  have "entry_left xb \<le> entry_left y" "yb = None \<or> entry_left xb < entry_left y"
    by simp_all
  with format_type_keeps [OF f] 5(1) show ?case by auto
next
  case (6 w line fmt l s ba x y baa)
  then have f: "format_type_at l fmt w = Inr (x, y)" by simp
  from format_type_keeps [OF f] put_string_keeps [OF 6(8)] 6(1) show ?case by simp
qed

termination yaml_create_nested_list
  using nested_list_total by simp

lemmas nested_list_keeps = nested_list_entry_left [OF nested_list_total [rule_format]]

declare yaml_create_nested_list.simps [simp del] nested_lines.simps [simp del]
  have_next_line.simps [simp del] flow_loop.simps [simp del]

text \<open>
  \<^verbatim>\<open>yaml_quotation_handling\<close>. Its two loops have the same body, for the double quote
  and then for the single quote; \<open>quote_loop\<close> is that loop, from the buffer and \<^verbatim>\<open>tmp\<close>
  to what they are when it ends. Without a closing quote \<^verbatim>\<open>strchr\<close> returns NULL and
  the write through \<^verbatim>\<open>tmp\<close> is a fault.
\<close>

definition quote_char :: "bool \<Rightarrow> char" where
  "quote_char dq = (if dq then CHR 0x22 else CHR 0x27)"

lemma c_strchr_found:
  assumes "c_strchr buf p c = Inr (Some r)"
  shows "p \<le> r \<and> r < length buf \<and> buf ! r = c"
proof -
  from assms obtain s where s: "c_str_at buf p = Inr s" and c: "c \<in> set s"
    and r: "r = p + length (takeWhile (\<lambda>x. x \<noteq> c) s)"
    by (auto simp: c_strchr_def split: sum.splits if_splits)
  from s have sd: "s = takeWhile (\<lambda>c. c \<noteq> CHR 0x00) (drop p buf)" and pl: "p < length buf"
    by (auto simp: c_str_at_def split: if_splits)
  let ?n = "length (takeWhile (\<lambda>x. x \<noteq> c) s)"
  from c have n: "?n < length s" by (induction s) auto
  then have "s ! ?n = c" using nth_length_takeWhile [of "\<lambda>x. x \<noteq> c" s] by simp
  moreover have ls: "length s \<le> length buf - p"
    unfolding sd by (rule order_trans [OF length_takeWhile_le]) simp
  moreover have "s ! ?n = drop p buf ! ?n"
    using n unfolding sd by (simp add: takeWhile_nth)
  ultimately show ?thesis using r n pl by simp
qed

lemma count_update_le:
  "v \<noteq> c \<Longrightarrow> length (filter (\<lambda>x. x = c) (xs[i := v])) \<le> length (filter (\<lambda>x. x = c) xs)"
  by (induction xs arbitrary: i) (auto split: nat.splits)

lemma count_update_less:
  "i < length xs \<Longrightarrow> xs ! i = c \<Longrightarrow> v \<noteq> c \<Longrightarrow>
     length (filter (\<lambda>x. x = c) (xs[i := v])) < length (filter (\<lambda>x. x = c) xs)"
proof (induction xs arbitrary: i)
  case Nil
  then show ?case by simp
next
  case (Cons x xs)
  show ?case
  proof (cases i)
    case 0
    with Cons.prems show ?thesis by (simp add: le_imp_less_Suc)
  next
    case (Suc j)
    with Cons.prems Cons.IH [of j] show ?thesis by simp
  qed
qed

function quote_loop :: "bool \<Rightarrow> char list \<Rightarrow> nat \<Rightarrow> fault + (char list \<times> nat)" where
  "quote_loop dq buf tmp =
     (case c_strchr buf tmp (quote_char dq) of
        Inl e \<Rightarrow> Inl e
      | Inr None \<Rightarrow> Inr (buf, tmp)
      | Inr (Some line) \<Rightarrow>
         (if length buf \<le> Suc line then Inl BufferOverrun
          else
            (let buf1 = buf[line := CHR ''%'', Suc line := CHR '' ''] in
             case c_strchr buf1 line (quote_char dq) of
               Inl e \<Rightarrow> Inl e
             | Inr None \<Rightarrow> Inl NullDeref
             | Inr (Some r) \<Rightarrow>
                 quote_loop dq (buf1[r - 1 := CHR '' '', r := CHR ''%'']) (r - 1))))"
  by pat_completeness auto

termination quote_loop
proof (relation "measure (\<lambda>(dq, buf, tmp). length (filter (\<lambda>c. c = quote_char dq) buf))", goal_cases)
  case 1
  show ?case by simp
next
  case (2 dq buf tmp x line b1 x2 r)
  let ?c = "quote_char dq"
  have np: "CHR ''%'' \<noteq> ?c" "CHR '' '' \<noteq> ?c" by (simp_all add: quote_char_def)
  from c_strchr_found [OF 2(1)[unfolded 2(2)]] have l: "line < length buf" "buf ! line = ?c"
    by simp_all
  have "length (filter (\<lambda>x. x = ?c) (b1[r - 1 := CHR '' '', r := CHR ''%'']))
      \<le> length (filter (\<lambda>x. x = ?c) b1)"
    by (rule order_trans [OF count_update_le [OF np(1)] count_update_le [OF np(2)]])
  also have "length (filter (\<lambda>x. x = ?c) b1) \<le> length (filter (\<lambda>x. x = ?c) (buf[line := CHR ''%'']))"
    unfolding 2(4) by (rule count_update_le [OF np(2)])
  also have "\<dots> < length (filter (\<lambda>x. x = ?c) buf)"
    by (rule count_update_less [OF l np(1)])
  finally show ?case by simp
qed

declare quote_loop.simps [simp del]

definition yaml_quotation_handling :: "char list \<Rightarrow> fault + char list" where
  "yaml_quotation_handling buf =
     (case quote_loop True buf 0 of
        Inl e \<Rightarrow> Inl e
      | Inr (buf1, tmp) \<Rightarrow>
         (case quote_loop False buf1 tmp of
            Inl e \<Rightarrow> Inl e
          | Inr (buf2, tmp2) \<Rightarrow> Inr buf2))"

text \<open>
  \<^verbatim>\<open>yaml_netlink_write_handler\<close>, lines 1137 to 1211. The loop is three functions, one
  for each place that control reaches by a jump: \<open>write_loop\<close> is the test of the
  \<^verbatim>\<open>while\<close> (where \<^verbatim>\<open>continue\<close> goes), \<open>already_have_line\<close> and \<open>complicated\<close> are the
  labels of those names. Each takes the shared locals, \<^verbatim>\<open>nogroups\<close> and \<^verbatim>\<open>fmt\<close>, the
  labels also \<^verbatim>\<open>line\<close>, and returns whether the loop was left by
  \<^verbatim>\<open>goto nla_put_failure\<close>, \<^verbatim>\<open>nogroups\<close> and the locals.

  \<open>alloc_msg\<close> is lines 1168 to 1187 (the header that \<^verbatim>\<open>genlmsg_put\<close> writes is made of
  fields of \<^verbatim>\<open>out\<close> that the callback never changes, so it is recorded when the message
  is sent), \<open>group_line\<close> lines 1149 to 1152 and \<open>has_bracket\<close> the test of line 1164.
\<close>

definition alloc_msg :: "write_locals \<Rightarrow> write_locals" where
  "alloc_msg w = (case wl_msg w of None \<Rightarrow> w\<lparr>wl_msg := Some []\<rparr> | Some m \<Rightarrow> w)"

definition first_char :: "string \<Rightarrow> char" where
  "first_char s = (case s of [] \<Rightarrow> CHR 0x00 | c # cs \<Rightarrow> c)"

definition group_line ::
  "nl_sock \<Rightarrow> write_locals \<Rightarrow> nat \<Rightarrow> nat \<Rightarrow> fault + (int \<times> write_locals)" where
  "group_line nl w line tmp =
     (let buf1 = (wl_buf w)[tmp := CHR 0x00] in
      case c_str_at buf1 line of
        Inl e \<Rightarrow> Inl e
      | Inr grp \<Rightarrow>
         (case lustre_netlink_add_group nl (family (wl_out w)) grp (wl_out w) of
            (rc, out1) \<Rightarrow> Inr (rc, w\<lparr>wl_out := out1, wl_buf := buf1\<rparr>)))"

definition has_bracket :: "char list \<Rightarrow> nat \<Rightarrow> fault + bool" where
  "has_bracket buf line =
     (case c_strchr buf line CHR ''{'' of
        Inl e \<Rightarrow> Inl e
      | Inr (Some t) \<Rightarrow> Inr True
      | Inr None \<Rightarrow>
         (case c_strchr buf line CHR ''['' of
            Inl e \<Rightarrow> Inl e
          | Inr t \<Rightarrow> Inr (t \<noteq> None)))"

function write_loop ::
    "nl_sock \<Rightarrow> (int \<Rightarrow> string) \<Rightarrow> write_locals \<Rightarrow> bool \<Rightarrow> int
       \<Rightarrow> fault + (bool \<times> bool \<times> write_locals)"
  and already_have_line ::
    "nl_sock \<Rightarrow> (int \<Rightarrow> string) \<Rightarrow> write_locals \<Rightarrow> bool \<Rightarrow> int \<Rightarrow> nat
       \<Rightarrow> fault + (bool \<times> bool \<times> write_locals)"
  and complicated ::
    "nl_sock \<Rightarrow> (int \<Rightarrow> string) \<Rightarrow> write_locals \<Rightarrow> bool \<Rightarrow> int \<Rightarrow> nat
       \<Rightarrow> fault + (bool \<times> bool \<times> write_locals)"
where
  "write_loop nl nl_geterror w nogroups fmt =
     (case wl_entry w of
        None \<Rightarrow> Inr (False, nogroups, w)
      | Some e \<Rightarrow>
         (case c_strsep (wl_buf w) (wl_entry w) CHR 0x0A of
            Inl f \<Rightarrow> Inl f
          | Inr (buf', None, entry') \<Rightarrow> Inl NullDeref
          | Inr (buf', Some line, entry') \<Rightarrow>
             (case c_str_at buf' line of
                Inl f \<Rightarrow> Inl f
              | Inr s \<Rightarrow>
                 if s = [] then Inr (False, nogroups, w\<lparr>wl_buf := buf', wl_entry := entry'\<rparr>)
                 else already_have_line nl nl_geterror (w\<lparr>wl_buf := buf', wl_entry := entry'\<rparr>)
                        nogroups fmt line)))"
| "already_have_line nl nl_geterror w nogroups fmt line =
     (case c_str_at (wl_buf w) line of
        Inl f \<Rightarrow> Inl f
      | Inr s \<Rightarrow>
         if s = ''---'' \<or> s = ''...'' then write_loop nl nl_geterror w nogroups fmt
         else if first_char s \<noteq> CHR '' '' \<and> first_char s \<noteq> CHR ''-'' then
           (case c_strchr (wl_buf w) line CHR '':'' of
              Inl f \<Rightarrow> Inl f
            | Inr None \<Rightarrow> write_loop nl nl_geterror w nogroups fmt
            | Inr (Some tmp) \<Rightarrow>
               (case group_line nl w line tmp of
                  Inl f \<Rightarrow> Inl f
                | Inr (rc, w1) \<Rightarrow>
                   if rc < 0 then
                     Inr (True, nogroups,
                          w1\<lparr>wl_out := yaml_emitter_set_writer_error
                                          ''Netlink group does not exist'' (wl_out w1)\<rparr>)
                   else
                     (case has_bracket (wl_buf w1) (tmp + 2) of
                        Inl f \<Rightarrow> Inl f
                      | Inr b \<Rightarrow>
                         if b then complicated nl nl_geterror w1 False fmt (tmp + 2)
                         else write_loop nl nl_geterror w1 False fmt)))
         else complicated nl nl_geterror w nogroups fmt line)"
| "complicated nl nl_geterror w nogroups fmt line =
     (case format_type_at line fmt (alloc_msg w) of
        Inl f \<Rightarrow> Inl f
      | Inr (fmt', w1) \<Rightarrow>
         if fmt' \<noteq> 0 then
           (case yaml_create_nested_list w1 (Some line) fmt' of
              Inl f \<Rightarrow> Inl f
            | Inr (rc, w2, line') \<Rightarrow>
               if rc \<noteq> 0 then
                 Inr (True, nogroups,
                      w2\<lparr>wl_out := yaml_emitter_set_writer_error (nl_geterror rc) (wl_out w2),
                         wl_msg := None\<rparr>)
               else
                 (case line' of
                    Some l \<Rightarrow> already_have_line nl nl_geterror w2 nogroups fmt' l
                  | None \<Rightarrow> write_loop nl nl_geterror w2 nogroups fmt'))
         else
           (case put_string_at (line + nat (wl_indent w1)) w1 of
              Inl f \<Rightarrow> Inl f
            | Inr w2 \<Rightarrow> write_loop nl nl_geterror w2 nogroups fmt'))"
  by pat_completeness auto

lemma group_line_keeps:
  "group_line nl w line tmp = Inr (rc, w1) \<Longrightarrow>
     length (wl_buf w1) = length (wl_buf w) \<and> wl_entry w1 = wl_entry w
     \<and> entry_left w1 = entry_left w \<and> wl_msg w1 = wl_msg w"
  by (auto simp: group_line_def Let_def entry_left_def split: sum.splits prod.splits option.splits)

lemma alloc_msg_keeps:
  "wl_buf (alloc_msg w) = wl_buf w" "wl_entry (alloc_msg w) = wl_entry w"
  "entry_left (alloc_msg w) = entry_left w" "wl_out (alloc_msg w) = wl_out w"
  "wl_msg (alloc_msg w) \<noteq> None"
  by (auto simp: alloc_msg_def entry_left_def split: option.splits)

lemma strsep_some_entry_left:
  "wl_entry w = Some e \<Longrightarrow> c_strsep (wl_buf w) (Some e) c = Inr (buf', Some line, entry') \<Longrightarrow>
     entry_left (w\<lparr>wl_buf := buf', wl_entry := entry'\<rparr>) < entry_left w"
  using strsep_entry_left(3) [of w c buf' "Some line" entry'] by simp

termination write_loop
proof (relation "inv_image (less_than <*lex*> less_than)
    (\<lambda>x. case x of
        Inl (nl, ge, w, ng, fmt) \<Rightarrow> (entry_left w, 0::nat)
      | Inr (Inl (nl, ge, w, ng, fmt, line)) \<Rightarrow> (entry_left w, 2)
      | Inr (Inr (nl, ge, w, ng, fmt, line)) \<Rightarrow> (entry_left w, 1))", goal_cases)
  case 1
  show ?case by (intro wf_inv_image wf_lex_prod wf_less_than)
next
  case 2
  then show ?case by (auto dest: strsep_some_entry_left)
next
  case 3
  then show ?case by simp
next
  case 4
  then show ?case by simp
next
  case 5
  then show ?case by (auto dest!: group_line_keeps)
next
  case 6
  then show ?case by (auto dest!: group_line_keeps)
next
  case 7
  then show ?case by simp
next
  case 8
  then show ?case
    by (auto dest!: nested_list_keeps(1) format_type_keeps simp: alloc_msg_keeps)
next
  case 9
  then show ?case
    by (auto dest!: nested_list_keeps(1) format_type_keeps simp: alloc_msg_keeps)
next
  case 10
  then show ?case
    by (auto dest!: put_string_keeps format_type_keeps simp: alloc_msg_keeps)
qed

declare write_loop.simps [simp del] already_have_line.simps [simp del] complicated.simps [simp del]

text \<open>
  Lines 1220 to 1226: the message is handed to the transport, \<^verbatim>\<open>nl_send_auto\<close> when
  there is one and \<^verbatim>\<open>genl_send_simple\<close> when none was allocated. The result is the
  return code and the output with the message added to \<open>sent\<close>.
\<close>

definition send_msg :: "nl_sock \<Rightarrow> write_locals \<Rightarrow> int \<times> yaml_netlink_output" where
  "send_msg nl w =
     (let out = wl_out w in
      case wl_msg w of
        Some m \<Rightarrow>
          (nl_send_auto nl m,
           out\<lparr>sent := sent out @
              [SentAuto (pid out, family_id out, flags out, cmd out, version out) m]\<rparr>)
      | None \<Rightarrow>
          (genl_send_simple nl (family_id out) (cmd out) (version out) (flags out),
           out\<lparr>sent := sent out @
              [SentSimple (family_id out) (cmd out) (version out) (flags out)]\<rparr>))"

text \<open>
  Lines 1213 to 1232, from what the loop returned: the value returned by the callback
  and the output.
\<close>

definition write_finish ::
  "nl_sock \<Rightarrow> (int \<Rightarrow> string) \<Rightarrow> bool \<times> bool \<times> write_locals \<Rightarrow> int \<times> yaml_netlink_output" where
  "write_finish nl nl_geterror r =
     (case r of (failed, nogroups, w) \<Rightarrow>
        (let out1 =
           (if failed then wl_out w
            else if nogroups then
              yaml_emitter_set_writer_error ''Emitter contains no valid Netlink groups'' (wl_out w)
            else
              (case send_msg nl w of
                 (rc, out2) \<Rightarrow>
                   if rc < 0 then yaml_emitter_set_writer_error (nl_geterror rc) out2 else out2))
         in (if emitter_error out1 = YAML_NO_ERROR then 1 else 0, out1)))"

text \<open>
  \<^verbatim>\<open>strndup(buffer, size)\<close>: the copy, with its NUL. \<open>bytes\<close> is the emitter's text, the
  memory at \<^verbatim>\<open>buffer\<close>; reading past its end is a fault.
\<close>

definition strndup :: "char list \<Rightarrow> nat \<Rightarrow> fault + char list" where
  "strndup s n =
     (if length s < n \<and> CHR 0x00 \<notin> set s then Inl BufferOverrun
      else Inr (takeWhile (\<lambda>c. c \<noteq> CHR 0x00) (take n s) @ [CHR 0x00]))"

text \<open>
  \<^verbatim>\<open>yaml_netlink_write_handler(data, buffer, size)\<close>: \<open>write_body\<close> is the callback up
  to the end of its loop, line 1211.
\<close>

definition write_body ::
  "nl_sock \<Rightarrow> (int \<Rightarrow> string) \<Rightarrow> yaml_netlink_output \<Rightarrow> char list \<Rightarrow> nat
     \<Rightarrow> fault + (bool \<times> bool \<times> write_locals)" where
  "write_body nl nl_geterror out bytes sz =
     (case strndup bytes sz of
        Inl e \<Rightarrow> Inl e
      | Inr buf \<Rightarrow>
         (case yaml_quotation_handling buf of
            Inl e \<Rightarrow> Inl e
          | Inr buf1 \<Rightarrow>
              write_loop nl nl_geterror
                \<lparr>wl_out = out, wl_buf = buf1, wl_entry = Some 0, wl_indent = 0, wl_msg = None\<rparr>
                True 0))"

definition yaml_netlink_write_handler ::
  "nl_sock \<Rightarrow> (int \<Rightarrow> string) \<Rightarrow> yaml_netlink_output \<Rightarrow> char list \<Rightarrow> nat
     \<Rightarrow> fault + (int \<times> yaml_netlink_output)" where
  "yaml_netlink_write_handler nl nl_geterror out bytes sz =
     (case write_body nl nl_geterror out bytes sz of
        Inl e \<Rightarrow> Inl e
      | Inr r \<Rightarrow> Inr (write_finish nl nl_geterror r))"

text \<open>
  What the loop of the callback keeps: it sends nothing and leaves the header fields
  alone, a message that exists holds an attribute, the groups joined only grow,
  \<^verbatim>\<open>nogroups\<close> is cleared exactly when one was joined, and the emitter's error changes
  only when the loop is left by \<^verbatim>\<open>goto nla_put_failure\<close>.
\<close>

definition msg_ok :: "write_locals \<Rightarrow> bool" where
  "msg_ok w = (wl_msg w \<noteq> Some [])"

definition loop_inv :: "write_locals \<Rightarrow> bool \<Rightarrow> bool \<times> bool \<times> write_locals \<Rightarrow> bool" where
  "loop_inv w ng r =
     (case r of (failed, ng', w') \<Rightarrow>
        sent (wl_out w') = sent (wl_out w) \<and> family_id (wl_out w') = family_id (wl_out w)
        \<and> cmd (wl_out w') = cmd (wl_out w) \<and> version (wl_out w') = version (wl_out w)
        \<and> flags (wl_out w') = flags (wl_out w) \<and> pid (wl_out w') = pid (wl_out w)
        \<and> (msg_ok w \<longrightarrow> msg_ok w')
        \<and> length (memberships (wl_out w)) \<le> length (memberships (wl_out w'))
        \<and> (ng' \<longrightarrow> ng \<and> memberships (wl_out w') = memberships (wl_out w))
        \<and> (\<not> ng' \<longrightarrow> \<not> ng \<or> length (memberships (wl_out w)) < length (memberships (wl_out w')))
        \<and> (if failed then emitter_error (wl_out w') = YAML_WRITER_ERROR
            else emitter_error (wl_out w') = emitter_error (wl_out w)
              \<and> emitter_problem (wl_out w') = emitter_problem (wl_out w)))"

section \<open>Concrete sessions and messages\<close>

text \<open>A fresh session, as \<^verbatim>\<open>calloc\<close> leaves it, on a raw buffer of \<open>n\<close> bytes.\<close>

definition new_session :: "nat \<Rightarrow> yaml_netlink_input" where
  "new_session n =
     \<lparr>parser = \<lparr>error = YAML_NO_ERROR, raw_buffer = replicate n (CHR 0x00)\<rparr>,
      buffer = 0, errmsg = None, complete = False, indent = 0, cur = [], root = None,
      freed = [], unlinked = []\<rparr>"

text \<open>
  Scenario S1: the schema message with the label \<open>net\<close> (index 1, MAPPING) and the
  key \<open>mtu\<close> (index 2, u32), and the value batch with attribute 2 = 9000.
\<close>

definition s1_key_list :: nlattrs where
  "s1_key_list =
     [(0, NlaNested [(LN_SCALAR_ATTR_LIST_SIZE, Nla16 2), (LN_SCALAR_ATTR_INDEX, Nla16 1),
          (LN_SCALAR_ATTR_NLA_TYPE, Nla16 NLA_NUL_STRING),
          (LN_SCALAR_ATTR_VALUE, NlaStr ''net''), (LN_SCALAR_ATTR_KEY_FORMAT, Nla16 4)]),
      (0, NlaNested [(LN_SCALAR_ATTR_INDEX, Nla16 2),
          (LN_SCALAR_ATTR_NLA_TYPE, Nla16 NLA_U32),
          (LN_SCALAR_ATTR_VALUE, NlaStr ''mtu''), (LN_SCALAR_ATTR_KEY_FORMAT, Nla16 0)])]"

definition s1_schema :: nl_msg where
  "s1_schema =
     \<lparr>nlmsg_type = 0x10, nlmsg_flags = NLM_F_CREATE OR NLM_F_MULTI,
      genl_attrs = [(LN_SCALAR_ATTR_LIST, NlaNested s1_key_list)],
      nlmsgerr_error = 0, ack_attrs = None\<rparr>"

definition s1_values :: nl_msg where
  "s1_values =
     \<lparr>nlmsg_type = 0x10, nlmsg_flags = NLM_F_MULTI, genl_attrs = [(2, Nla32 9000)],
      nlmsgerr_error = 0, ack_attrs = None\<rparr>"

definition s1_root :: yaml_nl_node where
  "s1_root =
     Node 3 [\<lparr>lkp_values = None, lkp_key_format = 0, lkp_data_type = 0\<rparr>,
             \<lparr>lkp_values = Some ''net'', lkp_key_format = 4, lkp_data_type = NLA_NUL_STRING\<rparr>,
             \<lparr>lkp_values = Some ''mtu'', lkp_key_format = 0, lkp_data_type = NLA_U32\<rparr>] []"

text \<open>
  Scenario S5: a terminal message with error code -22 and the extended-ack text
  \<open>invalid nid\<close>; and a terminal message without an error.
\<close>

definition s5_error :: nl_msg where
  "s5_error =
     \<lparr>nlmsg_type = NLMSG_DONE, nlmsg_flags = NLM_F_MULTI OR NLM_F_ACK_TLVS, genl_attrs = [],
      nlmsgerr_error = - 22, ack_attrs = Some [(NLMSGERR_ATTR_MSG, NlaStr ''invalid nid'')]\<rparr>"

definition done_msg :: nl_msg where
  "done_msg =
     \<lparr>nlmsg_type = NLMSG_DONE, nlmsg_flags = NLM_F_MULTI, genl_attrs = [],
      nlmsgerr_error = 0, ack_attrs = None\<rparr>"

text \<open>A transport that is interrupted before any message is dispatched.\<close>

definition recv_interrupted :: "yaml_netlink_input \<Rightarrow> int \<times> yaml_netlink_input" where
  "recv_interrupted d = (- NLE_INTR, d)"

text \<open>The session after the S1 schema message: the root is the S1 node.\<close>

definition s1_session :: "nat \<Rightarrow> yaml_netlink_input" where
  "s1_session n = (new_session n)\<lparr>root := Some s1_root\<rparr>"

text \<open>Sample translations of error codes, in place of libnl's.\<close>

definition sample_syserr2nlerr :: "int \<Rightarrow> int" where
  "sample_syserr2nlerr e = (if \<bar>e\<bar> = 22 then 7 else 1)"

definition sample_geterror :: "int \<Rightarrow> string" where
  "sample_geterror e = (if \<bar>e\<bar> = 7 then ''Invalid input data or parameter'' else ''Unspecific failure'')"

text \<open>
  A transport that dispatches the S1 schema message to the message callback and then the
  S5 terminal error to the completion callback, and reports one message.
\<close>

definition recv_s5 :: "yaml_netlink_input \<Rightarrow> int \<times> yaml_netlink_input" where
  "recv_s5 d =
     (case yaml_netlink_msg_parse s1_schema d of
        Inl e \<Rightarrow> (- 1, d)
      | Inr (rc, d1) \<Rightarrow>
         (case yaml_netlink_msg_complete True sample_geterror sample_syserr2nlerr s5_error d1 of
            Inl e \<Rightarrow> (- 1, d1)
          | Inr (rc', d2) \<Rightarrow> (1, d2)))"

text \<open>
  A transport that dispatches the S1 schema message and then the S1 value batch to the
  message callback, and reports two messages.
\<close>

definition recv_s1 :: "yaml_netlink_input \<Rightarrow> int \<times> yaml_netlink_input" where
  "recv_s1 d =
     (case yaml_netlink_msg_parse s1_schema d of
        Inl e \<Rightarrow> (- 1, d)
      | Inr (rc, d1) \<Rightarrow>
         (case yaml_netlink_msg_parse s1_values d1 of
            Inl e \<Rightarrow> (- 1, d1)
          | Inr (rc', d2) \<Rightarrow> (2, d2)))"

text \<open>
  A schema whose key 1, named \<open>peer\<close>, is nested, in a node that has no child; and a
  batch of values that has no attribute for it.
\<close>

definition childless_root :: yaml_nl_node where
  "childless_root =
     Node 2 [\<lparr>lkp_values = None, lkp_key_format = 0, lkp_data_type = 0\<rparr>,
             \<lparr>lkp_values = Some ''peer'', lkp_key_format = 4, lkp_data_type = NLA_NESTED\<rparr>] []"

definition childless_session :: yaml_netlink_input where
  "childless_session = (new_session 64)\<lparr>root := Some childless_root\<rparr>"

definition childless_locals :: value_locals where
  "childless_locals =
     \<lparr>vl_data = childless_session, vl_size = 64, vl_mapping = 4, vl_child_idx = 0, vl_len = 0\<rparr>"

text \<open>The session after the S1 schema message and the S1 value batch, on 64 bytes.\<close>

definition s1_echoed :: yaml_netlink_input where
  "s1_echoed =
     (s1_session 64)
       \<lparr>parser := \<lparr>error = YAML_NO_ERROR,
                   raw_buffer = ''net:'' @ [CHR 0x0A] @ ''  mtu: 9000'' @ [CHR 0x0A]
                                @ replicate 47 (CHR 0x00)\<rparr>,
        buffer := 17, indent := 2\<rparr>"

text \<open>
  A schema with one key \<open>k\<close> at the root, nested, with format \<open>fmt\<close>, and below it one
  string key \<open>nm\<close>; and a batch of values with one element for \<open>k\<close> that holds the
  string \<open>v\<close>.
\<close>

definition flow_tree :: "16 word \<Rightarrow> string \<Rightarrow> string \<Rightarrow> yaml_nl_node" where
  "flow_tree fmt k nm =
     Node 2 [\<lparr>lkp_values = None, lkp_key_format = 0, lkp_data_type = 0\<rparr>,
             \<lparr>lkp_values = Some k, lkp_key_format = fmt, lkp_data_type = NLA_NESTED\<rparr>]
       [Node 2 [\<lparr>lkp_values = None, lkp_key_format = 0, lkp_data_type = 0\<rparr>,
                \<lparr>lkp_values = Some nm, lkp_key_format = 0, lkp_data_type = NLA_STRING\<rparr>] []]"

definition flow_batch :: "string \<Rightarrow> nlattrs" where
  "flow_batch v = [(1, NlaNested [(0, NlaNested [(1, NlaStr v)])])]"

text \<open>
  The flow schema \<open>k\<close>, \<open>nm\<close> with format FLOW, on 64 bytes, and the message with the
  value \<open>v\<close>.
\<close>

definition flow_session :: yaml_netlink_input where
  "flow_session = (new_session 64)\<lparr>root := Some (flow_tree 1 ''k'' ''nm'')\<rparr>"

definition flow_msg :: "string \<Rightarrow> nl_msg" where
  "flow_msg v =
     \<lparr>nlmsg_type = 0x10, nlmsg_flags = NLM_F_MULTI, genl_attrs = flow_batch v,
      nlmsgerr_error = 0, ack_attrs = None\<rparr>"

text \<open>
  An outbound session: a transport on which only the group \<^verbatim>\<open>net\<close> exists and every
  call succeeds, and the output of a fresh emitter.
\<close>

definition sample_sock :: nl_sock where
  "sample_sock = \<lparr>genl_ctrl_resolve_grp = (\<lambda>fam grp. if grp = ''net'' then 3 else - 2),
     nl_socket_add_membership = (\<lambda>g. 0), nl_send_auto = (\<lambda>m. 0),
     genl_send_simple = (\<lambda>a b c d. 0)\<rparr>"

definition sample_out :: yaml_netlink_output where
  "sample_out = \<lparr>emitter_error = YAML_NO_ERROR, emitter_problem = None, emitter_best_indent = 2,
     family = ''lnet'', family_id = 7, version = 1, cmd = 4, pid = 100, flags = 0,
     memberships = [], sent = []\<rparr>"

section \<open>Evaluation of the model\<close>

lemma replicate_numeral_Cons: "replicate (numeral k) x = x # replicate (pred_numeral k) x"
  by (simp add: numeral_eq_Suc)

lemmas value_list_defs = yaml_parse_value_list.simps value_loop.simps value_slot.simps
  the_node_def key_at_def slot_prefix_def slot_switch_def label_slot_def not_first_def
  scalar_text_def slot_tail_def print_at_def snprintf_def poke_def strcat_def advance_def
  get_mem_def set_mem_def unwind_def c_str_def nla_get_u16_def nla_get_u32_def nla_get_u64_def
  nla_get_string_def to_size_t_def to_uint_def dec_nat.simps dec_int_def
  NLA_U16_def NLA_U32_def NLA_U64_def NLA_STRING_def NLA_NESTED_def NLA_NUL_STRING_def
  NLA_S16_def NLA_S32_def NLA_S64_def LNKF_FLOW_def LNKF_SEQUENCE_def LNKF_MAPPING_def
  nested_open_def nested_close_def set_indent_def set_cur_def node_policy_def
  nla_parse_nested_def nla_validate_def get_next_child_def replicate_numeral_Cons

lemma s1_key_list_parsed: "yaml_parse_key_list s1_key_list = Inr (NL_OK, Some s1_root)"
  by (simp add: s1_key_list_def yaml_parse_key_list.simps key_record_def opt_u16_def
      nla_parse_nested_def nla_validate_def scalar_attr_policy_def LN_SCALAR_ATTR_LIST_def
      LN_SCALAR_ATTR_LIST_SIZE_def LN_SCALAR_ATTR_INDEX_def LN_SCALAR_ATTR_NLA_TYPE_def
      LN_SCALAR_ATTR_VALUE_def LN_SCALAR_ATTR_KEY_FORMAT_def LN_SCALAR_CNT_def
      NLA_U16_def NLA_U32_def NLA_U64_def NLA_STRING_def NLA_NESTED_def NLA_NUL_STRING_def
      NLA_S16_def NLA_S32_def NLA_S64_def nla_get_u16_def nla_get_string_def calloc_node_def
      set_key_def add_tail_def NL_OK_def NL_STOP_def s1_root_def replicate_numeral_Cons)

lemma s1_schema_parsed:
  "yaml_netlink_msg_parse s1_schema (new_session n) = Inr (NL_OK, s1_session n)"
proof -
  have "nla_parse (LN_SCALAR_CNT + 1) scalar_attr_policy [] (genl_attrs s1_schema)
      = Some [(LN_SCALAR_ATTR_LIST, NlaNested s1_key_list)]"
    by (simp add: s1_schema_def scalar_attr_policy_def nla_validate_def LN_SCALAR_CNT_def
        LN_SCALAR_ATTR_LIST_def NLA_NESTED_def NLA_U16_def NLA_U32_def NLA_U64_def
        NLA_STRING_def NLA_NUL_STRING_def NLA_S16_def NLA_S32_def NLA_S64_def)
  moreover have "nlmsg_flags s1_schema AND NLM_F_CREATE \<noteq> 0"
    "nlmsg_flags s1_schema AND NLM_F_MULTI \<noteq> 0" "nlmsg_type s1_schema \<noteq> NLMSG_DONE"
    by (simp_all add: s1_schema_def NLM_F_CREATE_def NLM_F_MULTI_def NLMSG_DONE_def)
  ultimately show ?thesis
    by (simp add: yaml_netlink_msg_parse_def s1_key_list_parsed install_node_def
        new_session_def s1_session_def NL_OK_def)
qed

lemma s1_values_parsed:
  "yaml_netlink_msg_parse s1_values (s1_session 64)
     = Inr (NL_OK, (s1_session 64)
          \<lparr>parser := \<lparr>error = YAML_NO_ERROR,
                      raw_buffer = ''net:'' @ [CHR 0x0A] @ ''  mtu: 9000'' @ [CHR 0x0A]
                                   @ replicate 47 (CHR 0x00)\<rparr>,
           buffer := 17, indent := 2\<rparr>)"
  by (simp add: yaml_netlink_msg_parse_def s1_values_def value_list_defs s1_session_def
      new_session_def s1_root_def NLM_F_CREATE_def NLM_F_MULTI_def NLMSG_DONE_def NL_OK_def)

section \<open>Writing at the end of what is written\<close>

lemma poke_at_end:
  "length bs \<le> length B \<Longrightarrow> poke (A @ B) (int (length A)) bs = Inr (A @ bs @ drop (length bs) B)"
  by (simp add: poke_def)

lemma snprintf_at_end:
  assumes "length s < length B" "int (length s) < n" "n < 2 ^ 64"
  shows "snprintf (A @ B) (int (length A)) n s
           = Inr (A @ s @ CHR 0x00 # drop (Suc (length s)) B, int (length s))"
proof -
  from assms have n: "to_size_t n = n" "n \<noteq> 0" by (simp_all add: to_size_t_def)
  from assms have t: "take (nat n - Suc 0) s = s" by simp
  have "poke (A @ B) (int (length A)) (s @ [CHR 0x00])
      = Inr (A @ (s @ [CHR 0x00]) @ drop (length (s @ [CHR 0x00])) B)"
    using assms(1) by (intro poke_at_end) simp
  then show ?thesis by (simp add: snprintf_def n t)
qed

lemma strcat_at_end:
  assumes "CHR 0x00 \<notin> set s" "length t \<le> length C"
  shows "strcat (A @ s @ CHR 0x00 # C) (int (length A)) t
           = Inr (A @ s @ t @ CHR 0x00 # drop (length t) C)"
proof -
  have tw: "takeWhile (\<lambda>c. c \<noteq> CHR 0x00) (s @ CHR 0x00 # C) = s"
    using assms(1) by (induction s) auto
  have "poke ((A @ s) @ CHR 0x00 # C) (int (length (A @ s))) (t @ [CHR 0x00])
      = Inr ((A @ s) @ (t @ [CHR 0x00]) @ drop (length (t @ [CHR 0x00])) (CHR 0x00 # C))"
    using assms(2) by (intro poke_at_end) simp
  then have "poke (A @ s @ CHR 0x00 # C) (int (length A) + int (length s)) (t @ [CHR 0x00])
      = Inr (A @ s @ t @ CHR 0x00 # drop (length t) C)"
    by simp
  then show ?thesis by (simp add: strcat_def tw Let_def)
qed

lemma print_at_locals:
  assumes "length s < length B" "int (length s) < n" "n < 2 ^ 64"
  shows "print_at s (locals_at d A B n mp c l)
           = Inr (locals_at d A (s @ CHR 0x00 # drop (Suc (length s)) B) n mp c (int (length s)))"
  using snprintf_at_end [OF assms, of A]
  by (simp add: print_at_def locals_at_def at_buffer_def get_mem_def set_mem_def)

lemma advance_locals:
  "advance (int (length s)) (locals_at d A (s @ R) n mp c l)
     = locals_at d (A @ s) R (n - int (length s)) mp c l"
  by (simp add: advance_def locals_at_def at_buffer_def)

lemma slot_tail_flow:
  assumes "mp AND LNKF_FLOW \<noteq> 0" "s \<noteq> []" "CHR 0x00 \<notin> set s" "2 \<le> length C"
  shows "slot_tail (locals_at d A (s @ CHR 0x00 # C) n mp c (int (length s)))
           = Inr (locals_at d (A @ s @ '', '') (CHR 0x00 # drop 2 C)
                    (n + (int (length s) + 2)) mp c (int (length s) + 2))"
  using strcat_at_end [OF assms(3), of "'', ''" C A] assms
  by (simp add: slot_tail_def locals_at_def at_buffer_def get_mem_def set_mem_def
      numeral_2_eq_2 add.commute add.left_commute)

lemma at_buffer_sel:
  "root (at_buffer d A B) = root d" "cur (at_buffer d A B) = cur d"
  "indent (at_buffer d A B) = indent d" "buffer (at_buffer d A B) = int (length A)"
  "raw_buffer (parser (at_buffer d A B)) = A @ B"
  by (simp_all add: at_buffer_def)

lemma flow_tree_keys:
  assumes "root d = Some (flow_tree fmt k nm)"
  shows "key_at d [] 1 = Inr \<lparr>lkp_values = Some k, lkp_key_format = fmt, lkp_data_type = NLA_NESTED\<rparr>"
    and "key_at d [0] 1 = Inr \<lparr>lkp_values = Some nm, lkp_key_format = 0, lkp_data_type = NLA_STRING\<rparr>"
    and "the_node d [0] = Inr (Node 2 [\<lparr>lkp_values = None, lkp_key_format = 0, lkp_data_type = 0\<rparr>,
                \<lparr>lkp_values = Some nm, lkp_key_format = 0, lkp_data_type = NLA_STRING\<rparr>] [])"
    and "the_node d [] = Inr (flow_tree fmt k nm)"
  using assms by (simp_all add: key_at_def the_node_def flow_tree_def)

lemma locals_at_upd:
  "set_cur p (locals_at d A B n mp c l) = locals_at (d\<lparr>cur := p\<rparr>) A B n mp c l"
  "set_indent x (locals_at d A B n mp c l) = locals_at (d\<lparr>indent := x\<rparr>) A B n mp c l"
  "(locals_at d A B n mp c l)\<lparr>vl_len := l'\<rparr> = locals_at d A B n mp c l'"
  "(locals_at d A B n mp c l)\<lparr>vl_child_idx := c'\<rparr> = locals_at d A B n mp c' l"
  "vl_len (locals_at d A B n mp c l) = l" "vl_size (locals_at d A B n mp c l) = n"
  "vl_child_idx (locals_at d A B n mp c l) = c" "vl_mapping (locals_at d A B n mp c l) = mp"
  "vl_data (locals_at d A B n mp c l) = at_buffer d A B"
  by (simp_all add: locals_at_def set_cur_def set_indent_def at_buffer_def)

lemma flow_child:
  fixes v nm :: string
  defines "p \<equiv> (\<lambda>fmt::16 word. if uint fmt AND LNKF_MAPPING \<noteq> 0 then nm @ '': '' else [])"
  assumes r: "root d = Some (flow_tree fmt k nm)"
    and f: "uint fmt AND LNKF_FLOW \<noteq> 0"
    and v: "v \<noteq> []" "CHR 0x00 \<notin> set v"
    and cap: "length (p fmt) + length v + 3 \<le> length B" "int (length (p fmt) + length v) < n"
      "n < 2 ^ 64"
    and c: "cur d = [0]"
  shows "yaml_parse_value_list (at_buffer d A B) n [(1, NlaStr v)] ([], 1)
     = Inr (at_buffer d (A @ p fmt @ v @ '', '')
              (CHR 0x00 # drop (length (p fmt) + length v + 3) B),
            n - int (length (p fmt)) + (int (length v) + 2))"
proof -
  let ?ck = "\<lparr>lkp_values = Some nm, lkp_key_format = 0, lkp_data_type = NLA_STRING\<rparr>"
  let ?st = "locals_at d A B n (uint fmt) 0 0"
  let ?p = "p fmt"
  have r': "root (at_buffer d A' B') = Some (flow_tree fmt k nm)" for A' B'
    using r by (simp add: at_buffer_sel)
  note keys = flow_tree_keys [OF r']
  obtain B1 l1 where pfx: "slot_prefix ?ck (Some (NlaStr v)) ?st
        = Inr (Next (locals_at d (A @ ?p) B1 (n - int (length ?p)) (uint fmt) 0 l1))"
    and b1: "drop (Suc (length v)) B1 = drop (length ?p + length v + 1) B"
      "length B1 = length B - length ?p"
  proof (cases "uint fmt AND LNKF_MAPPING = 0")
    case True
    then have "?p = []" by (simp add: p_def)
    moreover have "slot_prefix ?ck (Some (NlaStr v)) ?st = Inr (Next ?st)"
      using f True by (simp add: slot_prefix_def NLA_STRING_def NLA_NUL_STRING_def
          NLA_NESTED_def locals_at_def)
    ultimately show ?thesis by (intro that[of B 0]) simp_all
  next
    case False
    then have pe: "?p = nm @ '': ''" by (simp add: p_def)
    have pr: "print_at ?p ?st
        = Inr (locals_at d A (?p @ CHR 0x00 # drop (Suc (length ?p)) B) n (uint fmt) 0
                 (int (length ?p)))"
      using cap by (intro print_at_locals) simp_all
    have "slot_prefix ?ck (Some (NlaStr v)) ?st
        = Inr (Next (advance (int (length ?p))
            (locals_at d A (?p @ CHR 0x00 # drop (Suc (length ?p)) B) n (uint fmt) 0
                 (int (length ?p)))))"
      using f False pr unfolding pe
      by (simp add: slot_prefix_def NLA_STRING_def NLA_NUL_STRING_def NLA_NESTED_def
          locals_at_upd c_str_def)
    then have "slot_prefix ?ck (Some (NlaStr v)) ?st
        = Inr (Next (locals_at d (A @ ?p) (CHR 0x00 # drop (Suc (length ?p)) B)
                 (n - int (length ?p)) (uint fmt) 0 (int (length ?p))))"
      by (simp only: advance_locals)
    then show ?thesis using cap by (intro that[of "CHR 0x00 # drop (Suc (length ?p)) B" "int (length ?p)"])
        (simp_all add: add.commute)
  qed
  let ?st1 = "locals_at d (A @ ?p) B1 (n - int (length ?p)) (uint fmt) 0 l1"
  let ?st2 = "locals_at d (A @ ?p) (v @ CHR 0x00 # drop (Suc (length v)) B1)
                (n - int (length ?p)) (uint fmt) 0 (int (length v))"
  let ?st3 = "locals_at d ((A @ ?p) @ v @ '', '') (CHR 0x00 # drop 2 (drop (Suc (length v)) B1))
                (n - int (length ?p) + (int (length v) + 2)) (uint fmt) 0 (int (length v) + 2)"
  have pr: "print_at v ?st1 = Inr ?st2"
    using cap b1 by (intro print_at_locals) simp_all
  have sw: "slot_switch ([], 1) 1 ?ck (Some (NlaStr v)) ?st1 = Inr (Next ?st2)"
    by (simp add: slot_switch_def scalar_text_def nla_get_string_def pr NLA_STRING_def
        NLA_NUL_STRING_def)
  have tl: "slot_tail ?st2 = Inr ?st3"
    using f v cap b1 by (intro slot_tail_flow) simp_all
  have sl: "value_slot [0] ([], 1) [(1, NlaStr v)] 1 ?st = Inr ?st3"
    using keys(2)[of A B] pfx sw tl
    by (simp add: value_slot.simps locals_at_upd NLA_STRING_def NLA_NESTED_def)
  have lp: "value_loop [0] ([], 1) [(1, NlaStr v)] 2 1 ?st = Inr ?st3"
  proof -
    have "value_loop [0] ([], 1) [(1, NlaStr v)] 2 1 ?st
        = (case value_slot [0] ([], 1) [(1, NlaStr v)] 1 ?st of
             Inl e \<Rightarrow> Inl e
           | Inr st' \<Rightarrow> value_loop [0] ([], 1) [(1, NlaStr v)] 2 (Suc 1) st')"
      by (subst value_loop.simps) simp
    also have "\<dots> = value_loop [0] ([], 1) [(1, NlaStr v)] 2 (Suc 1) ?st3"
      by (simp only: sl sum.case)
    also have "\<dots> = Inr ?st3"
      by (subst value_loop.simps) simp
    finally show ?thesis .
  qed
  have dr: "drop 2 (drop (Suc (length v)) B1) = drop (length ?p + length v + 3) B"
    by (simp add: b1 numeral_3_eq_3)
  show ?thesis
    using keys(1)[of A B] keys(3)[of A B] c lp[unfolded dr]
    by (simp add: yaml_parse_value_list.simps locals_at_def at_buffer_sel)
qed

lemma nested_close_flow:
  assumes "uint (lkp_key_format key) AND LNKF_FLOW \<noteq> 0"
  shows "nested_close key (locals_at d (X @ '', '') (c # R) n mp ci l)
     = Inr (locals_at d (X @ (if uint (lkp_key_format key) AND LNKF_SEQUENCE \<noteq> 0
                               then '' ]'' else '' }'') @ [CHR 0x0A]) R (n - 1) mp ci l)"
proof -
  let ?cl = "(if uint (lkp_key_format key) AND LNKF_SEQUENCE \<noteq> 0 then '' ]'' else '' }'')
              @ [CHR 0x0A]"
  have "poke (X @ ('', '' @ c # R)) (int (length X)) ?cl
      = Inr (X @ ?cl @ drop (length ?cl) ('', '' @ c # R))"
    by (intro poke_at_end) simp
  then have "poke ((X @ '', '') @ c # R) (int (length (X @ '', '')) - 2) ?cl = Inr (X @ ?cl @ R)"
    by simp
  then show ?thesis
    using assms
    by (simp add: nested_close_def locals_at_def at_buffer_def get_mem_def set_mem_def
        advance_def Let_def)
qed

lemma nested_open_flow:
  fixes k :: string
  defines "H \<equiv> (\<lambda>(ind::int) (fmt::16 word). replicate (nat ind) CHR '' '' @ k @ '': ''
             @ [if uint fmt AND LNKF_SEQUENCE \<noteq> 0 then CHR ''['' else CHR ''{''] @ '' '')"
  assumes "uint fmt AND LNKF_FLOW \<noteq> 0"
    and "length (H (indent d) fmt) < length B" "int (length (H (indent d) fmt)) < n" "n < 2 ^ 64"
  shows "nested_open \<lparr>lkp_values = Some k, lkp_key_format = fmt, lkp_data_type = NLA_NESTED\<rparr>
           (locals_at d A B n mp ci l)
     = Inr (locals_at d A (H (indent d) fmt @ CHR 0x00 # drop (Suc (length (H (indent d) fmt))) B)
              n mp ci (int (length (H (indent d) fmt))), 0)"
proof -
  have "print_at (H (indent d) fmt) (locals_at d A B n mp ci l)
      = Inr (locals_at d A (H (indent d) fmt @ CHR 0x00 # drop (Suc (length (H (indent d) fmt))) B)
              n mp ci (int (length (H (indent d) fmt))))"
    using assms(3-5) by (intro print_at_locals)
  then show ?thesis
    using assms(2)
    by (simp add: nested_open_def c_str_def Let_def locals_at_upd at_buffer_sel H_def)
qed

lemma locals_at_data:
  "(locals_at d A B n mp c l)\<lparr>vl_data := (at_buffer d' A' B')\<lparr>indent := x\<rparr>,
       vl_size := n', vl_len := l'\<rparr> = locals_at (d'\<lparr>indent := x\<rparr>) A' B' n' mp c l'"
  by (simp add: locals_at_def at_buffer_def)

lemma flow_value_list:
  fixes k nm v :: string and fmt :: "16 word" and ind :: nat
  defines "H \<equiv> replicate ind CHR '' '' @ k @ '': ''
             @ [if uint fmt AND LNKF_SEQUENCE \<noteq> 0 then CHR ''['' else CHR ''{''] @ '' ''"
    and "p \<equiv> (if uint fmt AND LNKF_MAPPING \<noteq> 0 then nm @ '': '' else [])"
    and "cl \<equiv> (if uint fmt AND LNKF_SEQUENCE \<noteq> 0 then '' ]'' else '' }'') @ [CHR 0x0A]"
  assumes r: "root d = Some (flow_tree fmt k nm)" and c: "cur d = []"
    and i: "indent d = int ind" "ind < 2 ^ 32"
    and f: "uint fmt AND LNKF_FLOW \<noteq> 0"
    and v: "v \<noteq> []" "CHR 0x00 \<notin> set v"
    and cap: "length (H @ p @ v @ cl) \<le> length space" "length space < 2 ^ 31"
  shows "yaml_parse_value_list (at_buffer d pre space) (int (length space)) (flow_batch v) ([], 1)
     = Inr (at_buffer d (pre @ H @ p @ v @ cl) (drop (length (H @ p @ v @ cl)) space),
            int (length space) - int (length H) - int (length p) + int (length v) + 1)"
proof -
  let ?n = "int (length space)"
  let ?kk = "\<lparr>lkp_values = Some k, lkp_key_format = fmt, lkp_data_type = NLA_NESTED\<rparr>"
  let ?child = "Node 2 [\<lparr>lkp_values = None, lkp_key_format = 0, lkp_data_type = 0\<rparr>,
                \<lparr>lkp_values = Some nm, lkp_key_format = 0, lkp_data_type = NLA_STRING\<rparr>] []"
  let ?mp = "uint fmt"
  let ?d1 = "d\<lparr>cur := [0]\<rparr>"
  let ?B = "CHR 0x00 # drop (Suc (length H)) space"
  have lcl: "length cl = 3" by (simp add: cl_def)
  have n64: "?n < 2 ^ 64" using cap(2) by simp
  have r': "root (at_buffer d' A' B') = Some (flow_tree fmt k nm)" if "root d' = root d" for d' A' B'
    using r that by (simp add: at_buffer_sel)
  have hl: "length H < length space" "int (length H) < ?n"
    using cap(1) lcl by simp_all
  \<comment> \<open>the element of the nested attribute\<close>
  have op: "nested_open ?kk (locals_at ?d1 pre space ?n ?mp (Suc 0) 0)
      = Inr (locals_at ?d1 pre (H @ ?B) ?n ?mp (Suc 0) (int (length H)), 0)"
    using nested_open_flow [where d = ?d1 and fmt = fmt and k = k and B = space and n = ?n
        and A = pre and mp = ?mp and ci = "Suc 0" and l = 0] f hl n64
    by (simp add: i H_def)
  have ch: "yaml_parse_value_list (at_buffer (?d1\<lparr>indent := int ind\<rparr>) (pre @ H) ?B)
              (?n - int (length H)) [(1, NlaStr v)] ([], 1)
      = Inr (at_buffer (?d1\<lparr>indent := int ind\<rparr>) ((pre @ H) @ p @ v @ '', '')
               (CHR 0x00 # drop (length p + length v + 3) ?B),
             ?n - int (length H) - int (length p) + (int (length v) + 2))"
    unfolding p_def using r f v cap n64 lcl unfolding p_def
    by (intro flow_child) simp_all
  have dr: "drop (length p + length v + 3) ?B = drop (length (H @ p @ v @ cl)) space"
    by (simp add: lcl numeral_3_eq_3 add.commute)
  have clo: "nested_close ?kk
       (locals_at (?d1\<lparr>indent := int ind\<rparr>) ((pre @ H @ p @ v) @ '', '')
          (CHR 0x00 # drop (length (H @ p @ v @ cl)) space)
          (?n - int (length H) - int (length p) + (int (length v) + 2)) ?mp (Suc 0) 0)
      = Inr (locals_at (?d1\<lparr>indent := int ind\<rparr>) ((pre @ H @ p @ v) @ cl)
          (drop (length (H @ p @ v @ cl)) space)
          (?n - int (length H) - int (length p) + (int (length v) + 2) - 1) ?mp (Suc 0) 0)"
    unfolding cl_def using f by (subst nested_close_flow) simp_all
  have tu: "to_uint (int ind) = int ind"
    using i(2) by (simp add: to_uint_def)
  have kp: "key_at (at_buffer d' A' B') [] 1 = Inr ?kk" if "root d' = root d" for d' A' B'
    using flow_tree_keys(1) [OF r' [OF that]] .
  have np: "nla_parse_nested 2 (node_policy 2 ?child) (NlaNested [(1, NlaStr v)])
      = Some [(1, NlaStr v)]"
    by (simp add: nla_parse_nested_def node_policy_def nla_validate_def NLA_STRING_def
        NLA_U16_def NLA_U32_def NLA_U64_def NLA_S16_def NLA_S32_def NLA_S64_def)
  let ?sz = "?n - int (length H) - int (length p) + (int (length v) + 2) - 1"
  let ?stE = "locals_at (?d1\<lparr>indent := int ind\<rparr>) (pre @ H @ p @ v @ cl)
          (drop (length (H @ p @ v @ cl)) space) ?sz ?mp (Suc 0) 0"
  have ne: "nested_elems [] 1 2 (node_policy 2 ?child) [(0, NlaNested [(1, NlaStr v)])]
              (locals_at ?d1 pre space ?n ?mp (Suc 0) 0) = Inr (False, ?stE)"
    using np kp [of ?d1 pre space] op ch [unfolded dr] clo
    by (simp add: locals_at_upd advance_locals at_buffer_sel tu i locals_at_data)
  have de: "?d1\<lparr>indent := int ind, cur := []\<rparr> = d"
    using c i(1) by (cases d) simp
  let ?st0 = "locals_at d pre space ?n ?mp 0 0"
  let ?stF = "locals_at d (pre @ H @ p @ v @ cl) (drop (length (H @ p @ v @ cl)) space) ?sz ?mp
                (Suc 0) 0"
  have pf: "slot_prefix ?kk (Some (NlaNested [(0, NlaNested [(1, NlaStr v)])])) ?st0
      = Inr (Next ?st0)"
    by (simp add: slot_prefix_def)
  have gc: "get_next_child (flow_tree fmt k nm) 0 = Some ?child"
    by (simp add: get_next_child_def flow_tree_def)
  have tn: "the_node (at_buffer d pre space) [] = Inr (flow_tree fmt k nm)"
    using flow_tree_keys(4) [OF r' [of d]] by simp
  have tl: "slot_tail (set_cur [] ?stE) = Inr ?stF"
    by (simp add: slot_tail_def locals_at_upd de)
  have sl: "value_slot [] ([], 1) (flow_batch v) 1 ?st0 = Inr ?stF"
    using kp [of d pre space] pf gc tn ne tl c
    by (simp add: value_slot.simps flow_batch_def locals_at_upd at_buffer_sel)
  have lp: "value_loop [] ([], 1) (flow_batch v) 2 1 ?st0 = Inr ?stF"
  proof -
    have "value_loop [] ([], 1) (flow_batch v) 2 1 ?st0
        = (case value_slot [] ([], 1) (flow_batch v) 1 ?st0 of
             Inl e \<Rightarrow> Inl e
           | Inr st' \<Rightarrow> value_loop [] ([], 1) (flow_batch v) 2 (Suc 1) st')"
      by (subst value_loop.simps) simp
    also have "\<dots> = value_loop [] ([], 1) (flow_batch v) 2 (Suc 1) ?stF"
      by (simp only: sl sum.case)
    also have "\<dots> = Inr ?stF"
      by (subst value_loop.simps) simp
    finally show ?thesis .
  qed
  show ?thesis
    using kp [of d pre space] tn c lp
    by (simp add: yaml_parse_value_list.simps locals_at_def at_buffer_sel flow_tree_def)
qed

section \<open>Properties of the value batches\<close>


text \<open>
  C6 fails on the code. With the S1 schema and the value batch of S1 in a buffer of 17
  bytes, 17 bytes are written and the write pointer ends at 17, yet the remaining capacity
  ends at 10, not 0: the value and its newline (5 bytes) were added to the capacity. With
  16 bytes the text does not fit; nothing is unwound and the newline is written past the
  end of the buffer.
\<close>

theorem s1_capacity_not_decreasing:
  "map_sum id (\<lambda>(d, sz). (buffer d, sz))
       (yaml_parse_value_list (s1_session 17) 17 [(2, Nla32 9000)] ([], 1)) = Inr (17, 10)
   \<and> yaml_parse_value_list (s1_session 16) 16 [(2, Nla32 9000)] ([], 1) = Inl BufferOverrun"
  by (simp add: value_list_defs s1_session_def new_session_def s1_root_def)



text \<open>
  C10: when the loop body reaches a slot whose key is nested (the value attribute or the
  key's name is there) and \<^verbatim>\<open>get_next_child\<close> returns NULL for the current child
  index, the run of the body ends in a NULL dereference, and so does the loop from that
  slot on. The value attribute need not be present.
\<close>

theorem nested_slot_without_child_faults:
  assumes "key_at (vl_data st) np i = Inr key"
    and "lkp_data_type key = NLA_NESTED"
    and "tb_get tb i \<noteq> None \<or> lkp_values key \<noteq> None"
    and "the_node (vl_data st) np = Inr node"
    and "get_next_child node (vl_child_idx st) = None"
  shows "value_slot np parent tb i st = Inl NullDeref
       \<and> (i < n \<longrightarrow> value_loop np parent tb n i st = Inl NullDeref)"
proof -
  have p: "slot_prefix key (tb_get tb i) st = Inr (Next st)"
    using assms(2) by (simp add: slot_prefix_def)
  have s: "value_slot np parent tb i st = Inl NullDeref"
    using assms p by (auto simp: value_slot.simps)
  then show ?thesis by (simp add: value_loop.simps)
qed

theorem nested_slot_without_child_faults_witness:
  "tb_get [] 1 = None
   \<and> value_slot [] ([], 1) [] 1 childless_locals = Inl NullDeref
   \<and> value_loop [] ([], 1) [] 2 1 childless_locals = Inl NullDeref
   \<and> yaml_parse_value_list childless_session 64 [] ([], 1) = Inl NullDeref"
proof -
  have k: "key_at (vl_data childless_locals) [] 1
      = Inr \<lparr>lkp_values = Some ''peer'', lkp_key_format = 4, lkp_data_type = NLA_NESTED\<rparr>"
    by (simp add: childless_locals_def childless_session_def childless_root_def key_at_def
        the_node_def)
  have t: "lkp_data_type \<lparr>lkp_values = Some ''peer'', lkp_key_format = 4,
      lkp_data_type = NLA_NESTED\<rparr> = NLA_NESTED"
    by simp
  have r: "tb_get [] 1 \<noteq> None
      \<or> lkp_values \<lparr>lkp_values = Some ''peer'', lkp_key_format = 4,
           lkp_data_type = NLA_NESTED\<rparr> \<noteq> None"
    by simp
  have n: "the_node (vl_data childless_locals) [] = Inr childless_root"
    by (simp add: childless_locals_def childless_session_def the_node_def)
  have c: "get_next_child childless_root (vl_child_idx childless_locals) = None"
    by (simp add: childless_locals_def childless_root_def get_next_child_def)
  have "yaml_parse_value_list childless_session 64 [] ([], 1) = Inl NullDeref"
    by (simp add: value_list_defs childless_session_def new_session_def childless_root_def)
  with nested_slot_without_child_faults [OF k t r n c, of "([], 1)" 2]
  show ?thesis by simp
qed

section \<open>Properties of the schema intake\<close>

lemma s1_schema_again:
  "yaml_netlink_msg_parse s1_schema s1_echoed = Inr (NL_OK, s1_echoed\<lparr>unlinked := [s1_root]\<rparr>)"
proof -
  have "nla_parse (LN_SCALAR_CNT + 1) scalar_attr_policy [] (genl_attrs s1_schema)
      = Some [(LN_SCALAR_ATTR_LIST, NlaNested s1_key_list)]"
    by (simp add: s1_schema_def scalar_attr_policy_def nla_validate_def LN_SCALAR_CNT_def
        LN_SCALAR_ATTR_LIST_def NLA_NESTED_def NLA_U16_def NLA_U32_def NLA_U64_def
        NLA_STRING_def NLA_NUL_STRING_def NLA_S16_def NLA_S32_def NLA_S64_def)
  moreover have "nlmsg_flags s1_schema AND NLM_F_CREATE \<noteq> 0"
    "nlmsg_flags s1_schema AND NLM_F_MULTI \<noteq> 0" "nlmsg_type s1_schema \<noteq> NLMSG_DONE"
    by (simp_all add: s1_schema_def NLM_F_CREATE_def NLM_F_MULTI_def NLMSG_DONE_def)
  ultimately show ?thesis
    by (simp add: yaml_netlink_msg_parse_def s1_key_list_parsed install_node_def
        s1_echoed_def new_session_def s1_session_def NL_OK_def)
qed




section \<open>Properties of the reader callback and of the end of a session\<close>

text \<open>
  C2: the reader callback returns success with zero bytes when the session is already
  complete, and the session is untouched; it also returns success with zero bytes when the
  transport reports an interruption, and then the session is the one the transport left:
  the callback itself records no error on the session or on the parser.
\<close>

theorem read_handler_complete_or_interrupted:
  "(complete d \<longrightarrow> yaml_netlink_read_handler recv nl_geterror d buf sz size_read = (1, 0, d))
   \<and> (\<not> complete d \<and> fst (recv (d\<lparr>buffer := buf\<rparr>)) = - NLE_INTR \<longrightarrow>
        yaml_netlink_read_handler recv nl_geterror d buf sz size_read
          = (1, 0, snd (recv (d\<lparr>buffer := buf\<rparr>))))"
  by (auto simp: yaml_netlink_read_handler_def split: prod.splits)

theorem read_handler_complete_or_interrupted_witness:
  "yaml_netlink_read_handler recv_interrupted (\<lambda>_. ''error'')
       ((new_session 16)\<lparr>complete := True\<rparr>) 0 16 7
     = (1, 0, (new_session 16)\<lparr>complete := True\<rparr>)
   \<and> yaml_netlink_read_handler recv_interrupted (\<lambda>_. ''error'') (new_session 16) 0 16 7
     = (1, 0, new_session 16)
   \<and> errmsg (new_session 16) = None \<and> error (parser (new_session 16)) = YAML_NO_ERROR"
  using read_handler_complete_or_interrupted
      [of "(new_session 16)\<lparr>complete := True\<rparr>" recv_interrupted "\<lambda>_. ''error''" 0 16 7]
    read_handler_complete_or_interrupted
      [of "new_session 16" recv_interrupted "\<lambda>_. ''error''" 0 16 7]
  by (simp add: new_session_def recv_interrupted_def)



lemma freed_nodes_append: "freed_nodes (xs @ ys) = freed_nodes xs @ freed_nodes ys"
  by (induction xs rule: freed_nodes.induct) simp_all

lemma freed_nodes_key_strings: "freed_nodes (key_strings p) = []"
proof -
  have "freed_nodes (concat (map (\<lambda>k. case lkp_values k of None \<Rightarrow> []
                                       | Some s \<Rightarrow> [FreedString s]) ks)) = []" for ks
    by (induction ks) (auto simp: freed_nodes_append split: option.splits)
  then show ?thesis by (simp add: key_strings_def)
qed

lemma postorder_leaf: "children p = [] \<Longrightarrow> postorder p = [lkl_list p]"
  by (cases p) simp

lemma postorder_node: "postorder p = concat (map postorder (children p)) @ [lkl_list p]"
  by (cases p) simp

text \<open>
  What \<^verbatim>\<open>cleanup_children\<close> frees: the nodes below its argument, in post-order; the
  argument keeps its key table and is left without children.
\<close>

lemma cleanup_frees:
  "(case cleanup_children p of (b, p', fs) \<Rightarrow>
      lkl_list p' = lkl_list p \<and> children p' = [] \<and> (b \<longleftrightarrow> children p = [])
      \<and> freed_nodes fs = concat (map postorder (children p)))"
  "(case cleanup_while q of (q', fs) \<Rightarrow>
      lkl_list q' = lkl_list q \<and> children q' = []
      \<and> freed_nodes fs = concat (map postorder (children q)))"
proof (induction p and q rule: cleanup_children_cleanup_while.induct)
  case (1 parent)
  show ?case
  proof (cases "children parent = []")
    case True
    then show ?thesis by (simp add: cleanup_children.simps freed_nodes_key_strings)
  next
    case False
    with 1[OF False] show ?thesis
      by (auto simp: cleanup_children.simps split: prod.splits)
  qed
next
  case (2 parent)
  show ?case
  proof (cases "get_next_child parent 0")
    case None
    then have "children parent = []"
      by (cases "children parent") (simp_all add: get_next_child_def)
    with None show ?thesis by (simp add: cleanup_while.simps)
  next
    case (Some child)
    note cs = get_next_child_0[OF Some]
    obtain b child' fs where r: "cleanup_children child = (b, child', fs)"
      by (cases "cleanup_children child")
    from 2(1)[OF Some] r have c: "lkl_list child' = lkl_list child" "children child' = []"
      "b \<longleftrightarrow> children child = []" "freed_nodes fs = concat (map postorder (children child))"
      by simp_all
    have split: "concat (map postorder (children parent))
        = postorder child @ concat (map postorder (tl (children parent)))"
      by (subst cs) simp
    show ?thesis
    proof (cases b)
      case True
      then have bt: "b = True" by simp
      obtain q' fs' where w: "cleanup_while (set_children (tl (children parent)) parent) = (q', fs')"
        by (cases "cleanup_while (set_children (tl (children parent)) parent)")
      from 2(2)[OF Some r[symmetric] bt refl] w
      have i: "lkl_list q' = lkl_list parent" "children q' = []"
        "freed_nodes fs' = concat (map postorder (tl (children parent)))"
        by (simp_all add: set_children_def)
      from True c have "postorder child = [lkl_list child']" by (simp add: postorder_leaf)
      with i c True split show ?thesis
        using Some r w by (simp add: cleanup_while.simps freed_nodes_append)
    next
      case False
      then have bf: "b = False" by simp
      obtain q' fs' where w:
        "cleanup_while (set_children (child' # tl (children parent)) parent) = (q', fs')"
        by (cases "cleanup_while (set_children (child' # tl (children parent)) parent)")
      from 2(3)[OF Some r[symmetric] bf refl] w
      have i: "lkl_list q' = lkl_list parent" "children q' = []"
        "freed_nodes fs' = postorder child' @ concat (map postorder (tl (children parent)))"
        by (simp_all add: set_children_def)
      from c have "postorder child' = [lkl_list child]" by (simp add: postorder_leaf)
      moreover have "postorder child = concat (map postorder (children child)) @ [lkl_list child]"
        by (rule postorder_node)
      ultimately show ?thesis
        using i c False split Some r w by (simp add: cleanup_while.simps freed_nodes_append)
    qed
  qed
qed




section \<open>Properties of the outbound structure inference\<close>

text \<open>
  C8, as the specification words it, fails: a line whose indentation increased is returned
  as a plain scalar (0), not as MAPPING, when the previous format was MAPPING.
\<close>

theorem yaml_format_type_spec_counterexample:
  "fst (yaml_format_type 2 ''    mtu: 9000'' 2 LNKF_MAPPING) \<noteq> spec_format_type ''    mtu: 9000'' 2"
  by (simp add: yaml_format_type_def spec_format_type_def indent_level_def to_uint_def
      isspace_def LNKF_MAPPING_def)

text \<open>
  C8 (amended): a line holding an opening brace or bracket is FLOW and leaves the base
  alone. Otherwise a line indented less than the base is END, and the base is reduced by
  the emitter's \<^verbatim>\<open>best_indent\<close>; otherwise a line whose first two characters after
  the indentation are a dash and a space is SEQUENCE, and the base becomes the line's
  indentation plus \<^verbatim>\<open>best_indent\<close>; otherwise a line indented more than the base
  moves the base to its indentation and is MAPPING unless the previous format was MAPPING,
  in which case it is a plain scalar; otherwise the line is a plain scalar and the base
  stays.
\<close>

theorem yaml_format_type_classification:
  fixes line :: string and b off prev :: int
  defines "bracket \<equiv> CHR ''{'' \<in> set line \<or> CHR ''['' \<in> set line"
    and "dash \<equiv> take 2 (drop (nat (indent_level line)) line) = ''- ''"
    and "r \<equiv> yaml_format_type b line off prev"
  shows "(bracket \<longrightarrow> r = (LNKF_FLOW, off))
       \<and> (\<not> bracket \<and> indent_level line < off \<longrightarrow> r = (LNKF_END, (off - b) mod 2 ^ 32))
       \<and> (\<not> bracket \<and> off \<le> indent_level line \<and> dash
            \<longrightarrow> r = (LNKF_SEQUENCE, (indent_level line + b) mod 2 ^ 32))
       \<and> (\<not> bracket \<and> \<not> dash \<and> off < indent_level line \<and> prev \<noteq> LNKF_MAPPING
            \<longrightarrow> r = (LNKF_MAPPING, indent_level line))
       \<and> (\<not> bracket \<and> \<not> dash \<and> off < indent_level line \<and> prev = LNKF_MAPPING
            \<longrightarrow> r = (0, indent_level line))
       \<and> (\<not> bracket \<and> \<not> dash \<and> off = indent_level line \<longrightarrow> r = (0, off))"
  unfolding bracket_def dash_def r_def yaml_format_type_def to_uint_def Let_def
  by auto

theorem yaml_format_type_classification_witness:
  "yaml_format_type 2 ''nets: [ a, b ]'' 4 0 = (LNKF_FLOW, 4)
   \<and> yaml_format_type 2 ''  nid: tcp1'' 4 0 = (LNKF_END, 2)
   \<and> yaml_format_type 2 ''    - nid: tcp1'' 4 0 = (LNKF_SEQUENCE, 6)
   \<and> yaml_format_type 2 ''    mtu: 9000'' 2 0 = (LNKF_MAPPING, 4)
   \<and> yaml_format_type 2 ''    mtu: 9000'' 2 LNKF_MAPPING = (0, 4)
   \<and> yaml_format_type 2 ''  mtu: 9000'' 2 0 = (0, 2)"
  using yaml_format_type_classification [of "''nets: [ a, b ]''" 2 4 0]
    yaml_format_type_classification [of "''  nid: tcp1''" 2 4 0]
    yaml_format_type_classification [of "''    - nid: tcp1''" 2 4 0]
    yaml_format_type_classification [of "''    mtu: 9000''" 2 2 0]
    yaml_format_type_classification [of "''    mtu: 9000''" 2 2 LNKF_MAPPING]
    yaml_format_type_classification [of "''  mtu: 9000''" 2 2 0]
  by (simp add: indent_level_def to_uint_def isspace_def LNKF_MAPPING_def)

section \<open>Properties of the write callback\<close>

lemma loop_inv_refl: "loop_inv w ng (False, ng, w)"
  by (simp add: loop_inv_def)

lemma loop_inv_trans:
  "loop_inv w ng (False, ng1, w1) \<Longrightarrow> loop_inv w1 ng1 r \<Longrightarrow> loop_inv w ng r"
  by (cases r) (auto simp: loop_inv_def split: if_splits)

lemma has_attrs_msg_ok: "has_attrs w \<Longrightarrow> msg_ok w"
  by (auto simp: has_attrs_def msg_ok_def split: option.splits)

lemma loop_inv_strsep:
  "loop_inv w ng (False, ng, w\<lparr>wl_buf := b, wl_entry := e\<rparr>)"
  by (simp add: loop_inv_def msg_ok_def)

lemma loop_inv_group:
  assumes "group_line nl w line tmp = Inr (rc, w1)"
  shows "\<not> rc < 0 \<Longrightarrow> loop_inv w ng (False, False, w1)"
    and "rc < 0 \<Longrightarrow> loop_inv w ng (True, ng,
            w1\<lparr>wl_out := yaml_emitter_set_writer_error p (wl_out w1)\<rparr>)"
  using assms
  by (auto simp: group_line_def lustre_netlink_add_group_def Let_def loop_inv_def msg_ok_def
      yaml_emitter_set_writer_error_def split: sum.splits if_splits)

lemma loop_inv_nested:
  assumes "format_type_at line fmt (alloc_msg w) = Inr (fmt', w1)"
    and "yaml_create_nested_list w1 hdr fmt' = Inr (rc, w2, line')"
  shows "loop_inv w ng (False, ng, w2)"
    and "loop_inv w ng (True, ng,
           w2\<lparr>wl_out := yaml_emitter_set_writer_error p (wl_out w2), wl_msg := None\<rparr>)"
  using format_type_keeps [OF assms(1)] nested_list_keeps(1) [OF assms(2)]
  by (auto simp: loop_inv_def alloc_msg_keeps yaml_emitter_set_writer_error_def
      msg_ok_def has_attrs_def split: option.splits)

lemma loop_inv_put:
  assumes "format_type_at line fmt (alloc_msg w) = Inr (fmt', w1)"
    and "put_string_at q w1 = Inr w2"
  shows "loop_inv w ng (False, ng, w2)"
  using format_type_keeps [OF assms(1)] put_string_keeps [OF assms(2)]
  by (auto simp: loop_inv_def alloc_msg_keeps msg_ok_def has_attrs_def split: option.splits)

lemma write_loop_inv:
  "write_loop nl ge w ng fmt = Inr r \<Longrightarrow> loop_inv w ng r"
  "already_have_line nl ge w1 ng1 fmt1 line1 = Inr r1 \<Longrightarrow> loop_inv w1 ng1 r1"
  "complicated nl ge w2 ng2 fmt2 line2 = Inr r2 \<Longrightarrow> loop_inv w2 ng2 r2"
proof (induction nl ge w ng fmt and nl ge w1 ng1 fmt1 line1 and nl ge w2 ng2 fmt2 line2
    arbitrary: r and r1 and r2 rule: write_loop_already_have_line_complicated.induct)
  case (1 nl ge w ng fmt)
  show ?case
  proof (cases "wl_entry w")
    case None
    with 1(2) have "r = (False, ng, w)" by (auto simp: write_loop.simps)
    then show ?thesis by (simp add: loop_inv_refl)
  next
    case (Some e)
    from 1(2) Some obtain buf' line entry' s
      where sp: "c_strsep (wl_buf w) (wl_entry w) CHR 0x0A = Inr (buf', Some line, entry')"
        and s: "c_str_at buf' line = Inr s"
        and r: "if s = [] then r = (False, ng, w\<lparr>wl_buf := buf', wl_entry := entry'\<rparr>)
                else already_have_line nl ge (w\<lparr>wl_buf := buf', wl_entry := entry'\<rparr>) ng fmt line
                       = Inr r"
      by (auto simp: write_loop.simps split: sum.splits option.splits if_splits)
    show ?thesis
    proof (cases "s = []")
      case True
      with r show ?thesis by (simp add: loop_inv_strsep)
    next
      case False
      with r have "already_have_line nl ge (w\<lparr>wl_buf := buf', wl_entry := entry'\<rparr>) ng fmt line
                     = Inr r" by simp
      from 1(1) [OF Some sp refl refl refl s False this]
      show ?thesis by (rule loop_inv_trans [OF loop_inv_strsep])
    qed
  qed
next
  case (2 nl ge w ng fmt line)
  from 2(6) obtain s where s: "c_str_at (wl_buf w) line = Inr s"
    by (auto simp: already_have_line.simps split: sum.splits)
  show ?case
  proof (cases "s = ''---'' \<or> s = ''...''")
    case True
    with 2(6) s have "write_loop nl ge w ng fmt = Inr r1"
      by (simp add: already_have_line.simps)
    from 2(1) [OF s True this] show ?thesis .
  next
    case nd: False
    show ?thesis
    proof (cases "first_char s \<noteq> CHR '' '' \<and> first_char s \<noteq> CHR ''-''")
      case False
      with 2(6) s nd have "complicated nl ge w ng fmt line = Inr r1"
        by (simp add: already_have_line.simps)
      from 2(5) [OF s nd False this] show ?thesis .
    next
      case True
      from 2(6) s nd True obtain t where t: "c_strchr (wl_buf w) line CHR '':'' = Inr t"
        by (auto simp: already_have_line.simps split: sum.splits)
      show ?thesis
      proof (cases t)
        case None
        with 2(6) s nd True t have "write_loop nl ge w ng fmt = Inr r1"
          by (simp add: already_have_line.simps)
        from 2(2) [OF s nd True t None this] show ?thesis .
      next
        case (Some tmp)
        from 2(6) s nd True t Some obtain rc w1
          where g: "group_line nl w line tmp = Inr (rc, w1)"
          by (auto simp: already_have_line.simps split: sum.splits)
        show ?thesis
        proof (cases "rc < 0")
          case True
          with 2(6) s nd \<open>first_char s \<noteq> CHR '' '' \<and> first_char s \<noteq> CHR ''-''\<close> t Some g
          have "r1 = (True, ng, w1\<lparr>wl_out := yaml_emitter_set_writer_error
                        ''Netlink group does not exist'' (wl_out w1)\<rparr>)"
            by (auto simp: already_have_line.simps)
          with loop_inv_group(2) [OF g True] show ?thesis by simp
        next
          case False
          note st = loop_inv_group(1) [OF g False, of ng]
          from 2(6) s nd True t Some g False obtain b
            where b: "has_bracket (wl_buf w1) (tmp + 2) = Inr b"
              and r: "if b then complicated nl ge w1 False fmt (tmp + 2) = Inr r1
                      else write_loop nl ge w1 False fmt = Inr r1"
            by (auto simp: already_have_line.simps split: sum.splits if_splits)
          show ?thesis
          proof (cases b)
            case True
            with r have "complicated nl ge w1 False fmt (tmp + 2) = Inr r1" by simp
            from 2(3) [OF s nd \<open>first_char s \<noteq> CHR '' '' \<and> first_char s \<noteq> CHR ''-''\<close>
                t Some g refl False b True this]
            show ?thesis by (rule loop_inv_trans [OF st])
          next
            case nb: False
            with r have "write_loop nl ge w1 False fmt = Inr r1" by simp
            from 2(4) [OF s nd \<open>first_char s \<noteq> CHR '' '' \<and> first_char s \<noteq> CHR ''-''\<close>
                t Some g refl False b nb this]
            show ?thesis by (rule loop_inv_trans [OF st])
          qed
        qed
      qed
    qed
  qed
next
  case (3 nl ge w ng fmt line)
  from 3(4) obtain fmt' w1 where f: "format_type_at line fmt (alloc_msg w) = Inr (fmt', w1)"
    by (auto simp: complicated.simps split: sum.splits)
  show ?case
  proof (cases "fmt' \<noteq> 0")
    case True
    from 3(4) f True obtain rc w2 line'
      where c: "yaml_create_nested_list w1 (Some line) fmt' = Inr (rc, w2, line')"
      by (auto simp: complicated.simps split: sum.splits)
    note st = loop_inv_nested [OF f c]
    show ?thesis
    proof (cases "rc \<noteq> 0")
      case True
      with 3(4) f \<open>fmt' \<noteq> 0\<close> c
      have "r2 = (True, ng, w2\<lparr>wl_out := yaml_emitter_set_writer_error (ge rc) (wl_out w2),
                                wl_msg := None\<rparr>)"
        by (auto simp: complicated.simps)
      with st(2) show ?thesis by simp
    next
      case r0: False
      show ?thesis
      proof (cases line')
        case None
        with 3(4) f True c r0 have "write_loop nl ge w2 ng fmt' = Inr r2"
          by (simp add: complicated.simps)
        from 3(1) [OF f refl True c refl refl r0 None this]
        show ?thesis by (rule loop_inv_trans [OF st(1)])
      next
        case (Some l)
        with 3(4) f True c r0 have "already_have_line nl ge w2 ng fmt' l = Inr r2"
          by (simp add: complicated.simps)
        from 3(2) [OF f refl True c refl refl r0 Some this]
        show ?thesis by (rule loop_inv_trans [OF st(1)])
      qed
    qed
  next
    case False
    from 3(4) f False obtain w2
      where p: "put_string_at (line + nat (wl_indent w1)) w1 = Inr w2"
        and "write_loop nl ge w2 ng fmt' = Inr r2"
      by (auto simp: complicated.simps split: sum.splits)
    from 3(3) [OF f refl False p this(2)]
    show ?thesis by (rule loop_inv_trans [OF loop_inv_put [OF f p]])
  qed
qed

text \<open>
  The callback on three texts: one that names no group, the group \<^verbatim>\<open>net\<close> alone, and
  the group with one line under it.
\<close>

lemmas write_body_defs = write_body_def strndup_def yaml_quotation_handling_def quote_loop.simps
  quote_char_def c_strchr_def c_str_at_def c_strsep_def write_loop.simps
  already_have_line.simps complicated.simps first_char_def group_line_def has_bracket_def
  lustre_netlink_add_group_def alloc_msg_def format_type_at_def yaml_format_type_def
  indent_level_def isspace_def to_uint_def put_string_at_def nla_put_def
  yaml_create_nested_list.simps nested_lines.simps have_next_line.simps flow_loop.simps
  flow_token_def LNKF_FLOW_def LNKF_SEQUENCE_def LNKF_MAPPING_def LNKF_END_def Let_def

lemma body_net:
  "write_body sample_sock sample_geterror sample_out ''net:\<newline>'' 5 =
     Inr (False, False,
       \<lparr>wl_out = sample_out\<lparr>memberships := [3]\<rparr>,
        wl_buf = [CHR ''n'', CHR ''e'', CHR ''t'', CHR 0x00, CHR 0x00, CHR 0x00],
        wl_entry = None, wl_indent = 0, wl_msg = None\<rparr>)"
  by (simp add: write_body_defs sample_sock_def sample_out_def)

lemma body_none:
  "write_body sample_sock sample_geterror sample_out ''...\<newline>'' 4 =
     Inr (False, True,
       \<lparr>wl_out = sample_out,
        wl_buf = [CHR ''.'', CHR ''.'', CHR ''.'', CHR 0x00, CHR 0x00],
        wl_entry = None, wl_indent = 0, wl_msg = None\<rparr>)"
  by (simp add: write_body_defs sample_sock_def sample_out_def)

lemma body_mtu:
  "write_body sample_sock sample_geterror sample_out ''net:\<newline>  mtu: 9000\<newline>'' 17 =
     Inr (False, False,
       \<lparr>wl_out = sample_out\<lparr>memberships := [3]\<rparr>,
        wl_buf = ''net'' @ [CHR 0x00, CHR 0x00] @ ''  mtu: 9000'' @ [CHR 0x00, CHR 0x00],
        wl_entry = None, wl_indent = 2,
        wl_msg = Some [NestStart 1, PutString 5 ''mtu: 9000'', NestEnd]\<rparr>)"
  by (simp add: write_body_defs sample_sock_def sample_out_def)

text \<open>
  C9: when the write callback reaches the end of its loop without a failure (the terminal
  section, lines 1213 to 1232) it returns, and \<^verbatim>\<open>nogroups\<close> is still set exactly when no
  group was joined. With \<^verbatim>\<open>nogroups\<close> set the emitter is marked with a writer error,
  nothing is handed to the transport and the callback returns 0. With a group joined and
  no message allocated, that is when no line produced an attribute, the command-only
  message of \<^verbatim>\<open>genl_send_simple\<close> is what is sent; a message that was allocated holds at
  least one attribute and is what \<^verbatim>\<open>nl_send_auto\<close> sends.
\<close>

theorem terminal_write_no_group_or_no_attributes:
  assumes "write_body nl nl_geterror out bytes sz = Inr (False, nogroups, w)"
  shows "\<exists>ret out'. yaml_netlink_write_handler nl nl_geterror out bytes sz = Inr (ret, out')
     \<and> (nogroups \<longleftrightarrow> memberships (wl_out w) = memberships out)
     \<and> (nogroups \<longrightarrow>
           emitter_error out' = YAML_WRITER_ERROR
           \<and> emitter_problem out' = Some ''Emitter contains no valid Netlink groups''
           \<and> sent out' = sent out \<and> ret = 0)
     \<and> (\<not> nogroups \<and> wl_msg w = None \<longrightarrow>
           sent out' = sent out @ [SentSimple (family_id out) (cmd out) (version out) (flags out)])
     \<and> (\<forall>m. \<not> nogroups \<and> wl_msg w = Some m \<longrightarrow>
           m \<noteq> []
           \<and> sent out' = sent out @
                 [SentAuto (pid out, family_id out, flags out, cmd out, version out) m])"
proof -
  from assms obtain buf1 where
    l: "write_loop nl nl_geterror
          \<lparr>wl_out = out, wl_buf = buf1, wl_entry = Some 0, wl_indent = 0, wl_msg = None\<rparr>
          True 0 = Inr (False, nogroups, w)"
    by (auto simp: write_body_def split: sum.splits)
  from write_loop_inv(1) [OF l]
  have i: "sent (wl_out w) = sent out" "family_id (wl_out w) = family_id out"
    "cmd (wl_out w) = cmd out" "version (wl_out w) = version out"
    "flags (wl_out w) = flags out" "pid (wl_out w) = pid out"
    "wl_msg w \<noteq> Some []"
    "nogroups \<longleftrightarrow> memberships (wl_out w) = memberships out"
    by (auto simp: loop_inv_def msg_ok_def)
  show ?thesis
    using assms i
    by (auto simp: yaml_netlink_write_handler_def write_finish_def send_msg_def Let_def
        yaml_emitter_set_writer_error_def split: prod.splits)
qed

theorem terminal_write_no_group_or_no_attributes_witness:
  "(\<exists>ret out'. yaml_netlink_write_handler sample_sock sample_geterror sample_out
                    ''...\<newline>'' 4 = Inr (ret, out')
        \<and> emitter_error out' = YAML_WRITER_ERROR \<and> sent out' = [] \<and> ret = 0)
   \<and> (\<exists>ret out'. yaml_netlink_write_handler sample_sock sample_geterror sample_out
                    ''net:\<newline>'' 5 = Inr (ret, out')
        \<and> sent out' = [SentSimple 7 4 1 0])
   \<and> (\<exists>ret out'. yaml_netlink_write_handler sample_sock sample_geterror sample_out
                    ''net:\<newline>  mtu: 9000\<newline>'' 17 = Inr (ret, out')
        \<and> sent out' = [SentAuto (100, 7, 0, 4, 1)
                           [NestStart 1, PutString 5 ''mtu: 9000'', NestEnd]])"
  using terminal_write_no_group_or_no_attributes [OF body_none]
    terminal_write_no_group_or_no_attributes [OF body_net]
    terminal_write_no_group_or_no_attributes [OF body_mtu]
  by (auto simp: sample_out_def)
end
